theory Spec2Isabelle
  imports Complex_Main "HOL-Library.Multiset"
begin

section \<open>Python dictionaries\<close>

text \<open>
  A Python \<open>dict\<close> keeps its keys unique and iterates in insertion order. It is modelled
  as an association list: \<open>d[k] = v\<close> replaces the value in place when the key is present
  and appends the pair otherwise; \<open>d[k]\<close> is \<open>map_of d k\<close>, with \<open>None\<close> for KeyError.
  Floating-point numbers of the source are modelled as real numbers throughout.
\<close>

type_synonym ('k, 'v) dict = "('k \<times> 'v) list"

fun dict_set :: "'k \<Rightarrow> 'v \<Rightarrow> ('k, 'v) dict \<Rightarrow> ('k, 'v) dict" where
  "dict_set k v [] = [(k, v)]"
| "dict_set k v ((k', v') # d) = (if k' = k then (k, v) # d else (k', v') # dict_set k v d)"

definition keys :: "('k, 'v) dict \<Rightarrow> 'k list" where
  "keys d = map fst d"

definition dict_values :: "('k, 'v) dict \<Rightarrow> 'v list" where
  "dict_values d = map snd d"

datatype error = ValueError | KeyError | ZeroDivisionError

section \<open>generate-edges.py\<close>

text \<open>A row of \<open>nodes.csv\<close>, with the columns written by \<open>main.py\<close>.\<close>

record nodes_row =
  Id :: int
  ThetaAlpha :: real
  Delta :: real
  Theta :: real
  Alpha :: real
  Beta :: real
  Gamma :: real
  MMSE :: real
  Age :: real
  Group :: string

text \<open>An edge dictionary of \<open>calculate_edges\<close>, which is also a row of \<open>edges.csv\<close>.\<close>

record edge =
  Source :: int
  Target :: int
  Distance :: real
  Weight :: real

text \<open>
  \<open>scipy.spatial.distance.euclidean\<close> on the two-element vectors \<open>[Theta, Alpha]\<close>, over
  the real numbers. The float computation of the source follows it up to rounding as long
  as no intermediate result leaves the range of float64.
\<close>

definition calculate_euclidean_distance :: "nodes_row \<Rightarrow> nodes_row \<Rightarrow> real" where
  "calculate_euclidean_distance row1 row2 =
     sqrt ((Theta row1 - Theta row2)\<^sup>2 + (Alpha row1 - Alpha row2)\<^sup>2)"

text \<open>
  \<open>data.iterrows()\<close> yields the rows with their index labels; for a table read by
  \<open>pd.read_csv\<close> these are the positions \<open>0, 1, ...\<close>.
\<close>

definition iterrows :: "'a list \<Rightarrow> (nat \<times> 'a) list" where
  "iterrows data = zip [0..<length data] data"

text \<open>
  The body of the inner iteration of \<open>calculate_edges\<close>, over the real numbers. For a
  scaling factor that is not negative the denominator \<open>1 + distance\<close> is at least \<open>1\<close>.
  In the source features near the end of the float64 range make the distance overflow
  to \<open>inf\<close> and the weight \<open>0.0\<close>; this definition does not follow the source there, and
  the theorem on it bounds the features and the scaling factor.
\<close>

definition make_edge :: "real \<Rightarrow> nodes_row \<Rightarrow> nodes_row \<Rightarrow> edge" where
  "make_edge scaling_factor row1 row2 =
     (let distance = calculate_euclidean_distance row1 row2 * scaling_factor;
          weight = 1 / (1 + distance)
      in \<lparr>Source = Id row1, Target = Id row2, Distance = distance, Weight = weight\<rparr>)"

definition calculate_edges :: "nodes_row list \<Rightarrow> real \<Rightarrow> edge list" where
  "calculate_edges data scaling_factor =
     concat (map (\<lambda>(i, row1).
       concat (map (\<lambda>(j, row2).
         if i < j then [make_edge scaling_factor row1 row2] else [])
         (iterrows data)))
       (iterrows data))"

section \<open>find-communities-louvain.py: the graph\<close>

definition filter_edges_by_threshold :: "edge list \<Rightarrow> real \<Rightarrow> edge list" where
  "filter_edges_by_threshold edges_df threshold = filter (\<lambda>e. Weight e \<ge> threshold) edges_df"

text \<open>
  \<open>networkx.Graph\<close> holds two dictionaries: \<open>_node\<close> from a node to its attribute
  dictionary and \<open>_adj\<close> from a node to the dictionary of its neighbours, each neighbour
  with the attribute dictionary of the edge. \<open>build_graph\<close> sets one edge attribute,
  \<open>weight\<close>, so an edge's attributes are its weight; it assigns a node all the columns of
  its row at once, so a node's attributes are \<open>None\<close> (the empty dictionary) or the row.
\<close>

record graph =
  g_node :: "(int, nodes_row option) dict"
  g_adj :: "(int, (int, real) dict) dict"

definition empty_graph :: graph where
  "empty_graph = \<lparr>g_node = [], g_adj = []\<rparr>"

text \<open>
  \<open>Graph.add_node(n)\<close> of networkx without attributes: a new node gets an empty adjacency
  and an empty attribute dictionary, a known node is left as it is.
\<close>

definition add_node :: "graph \<Rightarrow> int \<Rightarrow> graph" where
  "add_node G n =
     (if n \<notin> set (keys (g_node G))
      then G\<lparr>g_node := dict_set n None (g_node G), g_adj := dict_set n [] (g_adj G)\<rparr>
      else G)"

text \<open>The neighbour dictionary \<open>_adj[u]\<close>; every node has one once \<open>add_node\<close> has run.\<close>

definition nbrs :: "graph \<Rightarrow> int \<Rightarrow> (int, real) dict" where
  "nbrs G u = (case map_of (g_adj G) u of Some d \<Rightarrow> d | None \<Rightarrow> [])"

text \<open>
  \<open>Graph.add_edge(u, v, weight=w)\<close> of networkx: both endpoints are added as nodes when
  new, then the edge's attribute dictionary (the existing one, when the edge is known) is
  updated with \<open>weight = w\<close> and stored under \<open>_adj[u][v]\<close> and \<open>_adj[v][u]\<close>:
  \<^verbatim>\<open>datadict = self._adj[u].get(v, {}); datadict.update(attr)\<close>,
  \<^verbatim>\<open>self._adj[u][v] = datadict; self._adj[v][u] = datadict\<close>.
  The library checks neither the weight nor the endpoints.
\<close>

definition add_edge :: "graph \<Rightarrow> int \<Rightarrow> int \<Rightarrow> real \<Rightarrow> graph" where
  "add_edge G u v w =
     (let G1 = add_node (add_node G u) v;
          G2 = G1\<lparr>g_adj := dict_set u (dict_set v w (nbrs G1 u)) (g_adj G1)\<rparr>
      in G2\<lparr>g_adj := dict_set v (dict_set u w (nbrs G2 v)) (g_adj G2)\<rparr>)"

definition set_node_row :: "graph \<Rightarrow> nodes_row \<Rightarrow> graph" where
  "set_node_row G node =
     (let G1 = add_node G (Id node)
      in G1\<lparr>g_node := dict_set (Id node) (Some node) (g_node G1)\<rparr>)"

text \<open>\<open>int.bit_length\<close>: the number of binary digits of a natural number.\<close>

fun bit_length :: "nat \<Rightarrow> nat" where
  "bit_length n = (if n = 0 then 0 else Suc (bit_length (n div 2)))"

declare bit_length.simps [simp del]

text \<open>
  The conversion of a 64-bit integer to float64, as the integer that the float equals:
  integers up to \<open>2^53\<close> in absolute value are kept, larger ones are rounded to 53
  binary digits, to the nearest and to the even one in a tie.
\<close>

definition float64_of_int :: "int \<Rightarrow> int" where
  "float64_of_int n =
     (let a = nat \<bar>n\<bar>
      in if a \<le> 2 ^ 53 then n
         else let q = 2 ^ (bit_length a - 53);
                  d = a div q;
                  r = a mod q;
                  m = (if 2 * r < q \<or> (2 * r = q \<and> even d) then d else d + 1)
              in sgn n * int (m * q))"

text \<open>
  A row of \<open>edges_df.iterrows()\<close>. The four columns of the edge table are numeric (two of
  64-bit integers, two of floats), so pandas yields each row as a float64 Series and the
  two ids are converted. A row of \<open>nodes_df.iterrows()\<close> holds the string column \<open>Group\<close>, is
  an object Series and keeps \<open>Id\<close> as it is. Python compares an integer and a float by
  their exact values, so a converted id and an \<open>Id\<close> are the same node when they are equal
  as integers.
\<close>

definition edge_row :: "edge \<Rightarrow> edge" where
  "edge_row e = e\<lparr>Source := float64_of_int (Source e), Target := float64_of_int (Target e)\<rparr>"

definition build_graph :: "nodes_row list \<Rightarrow> edge list \<Rightarrow> graph" where
  "build_graph nodes_df edges_df =
     (let G = fold (\<lambda>edge G. add_edge G (Source edge) (Target edge) (Weight edge))
                (map edge_row edges_df) empty_graph
      in fold (\<lambda>node G. set_node_row G node) nodes_df G)"

text \<open>The weight stored for the edge between \<open>u\<close> and \<open>v\<close>: \<open>G[u][v]['weight']\<close>.\<close>

definition edge_weight :: "graph \<Rightarrow> int \<Rightarrow> int \<Rightarrow> real option" where
  "edge_weight G u v = map_of (nbrs G u) v"

text \<open>
  Entries of the edge list that lie between the same unordered pair of nodes, and the
  edge insertions of \<open>build_graph\<close> as a function of their own.
\<close>

definition same_pair :: "int \<Rightarrow> int \<Rightarrow> edge \<Rightarrow> bool" where
  "same_pair u v e \<longleftrightarrow> (Source e = u \<and> Target e = v) \<or> (Source e = v \<and> Target e = u)"

definition add_edges :: "edge list \<Rightarrow> graph \<Rightarrow> graph" where
  "add_edges es G = fold (\<lambda>e G. add_edge G (Source e) (Target e) (Weight e)) es G"

text \<open>
  What networkx maintains: \<open>_node\<close> and \<open>_adj\<close> have the same keys, and a neighbour
  dictionary holds a neighbour once.
\<close>

definition graph_inv :: "graph \<Rightarrow> bool" where
  "graph_inv G \<longleftrightarrow> set (keys (g_adj G)) = set (keys (g_node G))"

definition simple_adj :: "graph \<Rightarrow> bool" where
  "simple_adj G \<longleftrightarrow> (\<forall>u. distinct (keys (nbrs G u)))"

text \<open>The index pairs \<open>i < j\<close> in the order in which \<open>calculate_edges\<close> meets them.\<close>

definition row_pairs :: "nat \<Rightarrow> (nat \<times> nat) list" where
  "row_pairs n = concat (map (\<lambda>i. map (Pair i) [Suc i..<n]) [0..<n])"

text \<open>
  Queries of networkx used by python-louvain: the nodes in insertion order, the number of
  edges and the total weight \<open>size(weight='weight')\<close>. Both counts are half the sum of
  the degrees, in which a self-loop counts twice.
\<close>

definition graph_nodes :: "graph \<Rightarrow> int list" where
  "graph_nodes G = keys (g_node G)"

definition degree :: "graph \<Rightarrow> int \<Rightarrow> nat" where
  "degree G n = length (nbrs G n) + (if n \<in> set (keys (nbrs G n)) then 1 else 0)"

definition weighted_degree :: "graph \<Rightarrow> int \<Rightarrow> real" where
  "weighted_degree G n =
     sum_list (dict_values (nbrs G n)) + (case map_of (nbrs G n) n of Some w \<Rightarrow> w | None \<Rightarrow> 0)"

definition number_of_edges :: "graph \<Rightarrow> nat" where
  "number_of_edges G = sum_list (map (degree G) (graph_nodes G)) div 2"

definition graph_size :: "graph \<Rightarrow> real" where
  "graph_size G = sum_list (map (weighted_degree G) (graph_nodes G)) / 2"

section \<open>find-communities-louvain.py: community detection\<close>

type_synonym partition = "(int, int) dict"

text \<open>
  \<open>community_louvain.best_partition(G, resolution=1, randomize=False)\<close> of python-louvain.
  For a graph without edges the library returns at once the partition that numbers the
  nodes in their order:
  \<^verbatim>\<open>if graph.number_of_edges() == 0:\<close>
  \<^verbatim>\<open>    for i, node in enumerate(graph.nodes()): part[node] = i\<close>.
  This case is modelled. The multi-level optimisation that the library runs otherwise is
  the parameter \<open>optimise\<close>.
\<close>

definition best_partition :: "(graph \<Rightarrow> error + partition) \<Rightarrow> graph \<Rightarrow> error + partition" where
  "best_partition optimise G =
     (if number_of_edges G = 0
      then Inr (fold (\<lambda>(i, node) part. dict_set node (int i) part)
                  (enumerate 0 (graph_nodes G)) [])
      else optimise G)"

text \<open>
  \<open>community_louvain.modularity(partition, G)\<close> of python-louvain begins with
  \<^verbatim>\<open>links = graph.size(weight=weight)\<close>,
  \<^verbatim>\<open>if links == 0: raise ValueError("A graph without link has an undefined modularity")\<close>.
  This guard is modelled. The sum that the library computes otherwise is the parameter
  \<open>score\<close>.
\<close>

definition modularity ::
  "(partition \<Rightarrow> graph \<Rightarrow> error + real) \<Rightarrow> partition \<Rightarrow> graph \<Rightarrow> error + real" where
  "modularity score part G =
     (let links = graph_size G
      in if links = 0 then Inl ValueError else score part G)"

text \<open>\<open>communities.setdefault(community_id, []).append(node)\<close> for every item of the partition.\<close>

definition setdefault_append :: "int \<Rightarrow> int \<Rightarrow> (int, int list) dict \<Rightarrow> (int, int list) dict" where
  "setdefault_append community_id node communities =
     (case map_of communities community_id of
        None \<Rightarrow> dict_set community_id [node] communities
      | Some nodes \<Rightarrow> dict_set community_id (nodes @ [node]) communities)"

definition group_communities :: "partition \<Rightarrow> (int, int list) dict" where
  "group_communities part =
     fold (\<lambda>(node, community_id) communities. setdefault_append community_id node communities)
       part []"

definition compute_communities ::
  "(graph \<Rightarrow> error + partition) \<Rightarrow> (partition \<Rightarrow> graph \<Rightarrow> error + real) \<Rightarrow> graph
     \<Rightarrow> error + (partition \<times> (int, int list) dict \<times> real)" where
  "compute_communities optimise score G =
     (case best_partition optimise G of
        Inl e \<Rightarrow> Inl e
      | Inr part \<Rightarrow>
          (case modularity score part G of
             Inl e \<Rightarrow> Inl e
           | Inr modularity_value \<Rightarrow>
               Inr (part, group_communities part, modularity_value)))"

section \<open>find-communities-louvain.py: the global layout\<close>

type_synonym point = "real \<times> real"
type_synonym layout = "(int, point) dict"

text \<open>
  \<open>G.subgraph(nodes)\<close>: the nodes of \<open>G\<close> that are in \<open>nodes\<close> and the edges among them.
  The order in which networkx iterates the nodes of the view plays no part below.
\<close>

definition subgraph :: "graph \<Rightarrow> int list \<Rightarrow> graph" where
  "subgraph G nodes =
     \<lparr>g_node = filter (\<lambda>(n, a). n \<in> set nodes) (g_node G),
      g_adj = map (\<lambda>(n, d). (n, filter (\<lambda>(m, w). m \<in> set nodes) d))
                (filter (\<lambda>(n, d). n \<in> set nodes) (g_adj G))\<rparr>"

text \<open>
  The centroid of a local layout. Python raises ZeroDivisionError on an empty layout.
\<close>

definition centroid_of :: "layout \<Rightarrow> error + point" where
  "centroid_of pos_local =
     (let xs = map fst (dict_values pos_local);
          ys = map snd (dict_values pos_local)
      in if length xs = 0 then Inl ZeroDivisionError
         else Inr (sum_list xs / real (length xs), sum_list ys / real (length ys)))"

text \<open>
  The first loop of \<open>compute_global_layout\<close>. The solver
  \<open>fa2.forceatlas2_networkx_layout(subG, pos=None, iterations=iterations)\<close> is the library's
  and is the parameter \<open>fa2\<close>; the two dictionaries filled by the loop are passed along.
\<close>

fun local_layouts ::
  "(graph \<Rightarrow> nat \<Rightarrow> layout) \<Rightarrow> graph \<Rightarrow> nat \<Rightarrow> (int, int list) dict
     \<Rightarrow> (int, layout) dict \<times> (int, point) dict
     \<Rightarrow> error + ((int, layout) dict \<times> (int, point) dict)" where
  "local_layouts fa2 G iterations [] (community_local_positions, community_centroids) =
     Inr (community_local_positions, community_centroids)"
| "local_layouts fa2 G iterations ((comm_id, nodes) # rest)
       (community_local_positions, community_centroids) =
     (let pos_local = fa2 (subgraph G nodes) iterations
      in case centroid_of pos_local of
           Inl e \<Rightarrow> Inl e
         | Inr centroid \<Rightarrow>
             local_layouts fa2 G iterations rest
               (dict_set comm_id pos_local community_local_positions,
                dict_set comm_id centroid community_centroids))"

text \<open>The second loop: the communities, sorted by id, evenly on a circle of radius \<open>R\<close>.\<close>

definition anchor_angle :: "nat \<Rightarrow> nat \<Rightarrow> real" where
  "anchor_angle idx n_comms = 2 * pi * real idx / real n_comms"

definition global_offsets :: "(int, int list) dict \<Rightarrow> real \<Rightarrow> (int, point) dict" where
  "global_offsets communities R =
     (let n_comms = length communities
      in fold (\<lambda>(idx, comm_id) offsets.
                 let angle = anchor_angle idx n_comms
                 in dict_set comm_id (R * cos angle, R * sin angle) offsets)
           (enumerate 0 (sort (keys communities))) [])"

text \<open>The third loop: every local position, less the centroid, plus the offset.\<close>

definition place :: "point \<Rightarrow> point \<Rightarrow> point \<Rightarrow> point" where
  "place centroid offset p =
     (fst p - fst centroid + fst offset, snd p - snd centroid + snd offset)"

definition place_community :: "point \<Rightarrow> point \<Rightarrow> layout \<Rightarrow> layout \<Rightarrow> layout" where
  "place_community centroid offset pos_local pos =
     fold (\<lambda>(node, p) pos. dict_set node (place centroid offset p) pos) pos_local pos"

fun compose ::
  "(int, point) dict \<Rightarrow> (int, point) dict \<Rightarrow> (int, layout) dict \<Rightarrow> layout \<Rightarrow> error + layout" where
  "compose community_centroids offsets [] pos = Inr pos"
| "compose community_centroids offsets ((comm_id, pos_local) # rest) pos =
     (case map_of community_centroids comm_id of
        None \<Rightarrow> Inl KeyError
      | Some centroid \<Rightarrow>
          (case map_of offsets comm_id of
             None \<Rightarrow> Inl KeyError
           | Some offset \<Rightarrow>
               compose community_centroids offsets rest
                 (place_community centroid offset pos_local pos)))"

definition compute_global_layout ::
  "(graph \<Rightarrow> nat \<Rightarrow> layout) \<Rightarrow> graph \<Rightarrow> (int, int list) dict \<Rightarrow> nat \<Rightarrow> real \<Rightarrow> error + layout" where
  "compute_global_layout fa2 G communities iterations R =
     (case local_layouts fa2 G iterations communities ([], []) of
        Inl e \<Rightarrow> Inl e
      | Inr (community_local_positions, community_centroids) \<Rightarrow>
          compose community_centroids (global_offsets communities R)
            community_local_positions [])"

text \<open>The arithmetic mean of a list of numbers.\<close>

definition mean :: "real list \<Rightarrow> real" where
  "mean xs = sum_list xs / real (length xs)"

text \<open>
  The centroid of a non-empty layout as a total function, and the items that the third
  loop of \<open>compute_global_layout\<close> writes, in the order in which it writes them.
\<close>

definition ctr :: "layout \<Rightarrow> point" where
  "ctr p = (mean (map fst (dict_values p)), mean (map snd (dict_values p)))"

definition placed :: "(int \<Rightarrow> point) \<Rightarrow> (int \<Rightarrow> point) \<Rightarrow> (int, layout) dict \<Rightarrow> layout" where
  "placed C Off lp = concat (map (\<lambda>(c, p). map (\<lambda>(n, q). (n, place (C c) (Off c) q)) p) lp)"

section \<open>Example inputs\<close>

text \<open>
  Four rows of a node table, two pairs of subjects with equal band powers, and the two
  edges that remain of them above the threshold \<open>0.15\<close>.
\<close>

definition example_row :: "int \<Rightarrow> real \<Rightarrow> real \<Rightarrow> nodes_row" where
  "example_row i t a =
     \<lparr>Id = i, ThetaAlpha = t / a, Delta = 0, Theta = t, Alpha = a, Beta = 0, Gamma = 0,
      MMSE = 0, Age = 0, Group = ''A''\<rparr>"

definition example_rows :: "nodes_row list" where
  "example_rows = [example_row 1 (3/10) (1/5), example_row 2 (3/10) (1/5),
                   example_row 3 (1/2) (2/5), example_row 4 (1/2) (2/5)]"

definition example_edges :: "edge list" where
  "example_edges =
     [\<lparr>Source = 1, Target = 2, Distance = 0, Weight = 1\<rparr>,
      \<lparr>Source = 3, Target = 4, Distance = 0, Weight = 1\<rparr>]"

definition example_graph :: graph where
  "example_graph = build_graph example_rows example_edges"

text \<open>Two rows whose ids are distinct as integers and equal as floats.\<close>

definition large_id_rows :: "nodes_row list" where
  "large_id_rows = [example_row 9007199254740992 (3/10) (1/5),
                    example_row 9007199254740993 (3/10) (1/5)]"

text \<open>
  Values for the three library parameters on the example: the optimisation puts the
  nodes \<open>1, 2\<close> in community \<open>0\<close> and the others in community \<open>1\<close>, a partition of modularity
  \<open>1/2\<close> on the example graph, and the solver puts node \<open>n\<close> at \<open>(n, 0)\<close>.
\<close>

definition example_optimise :: "graph \<Rightarrow> error + partition" where
  "example_optimise G = Inr (map (\<lambda>n. (n, if n \<le> 2 then 0 else 1)) (graph_nodes G))"

definition example_score :: "partition \<Rightarrow> graph \<Rightarrow> error + real" where
  "example_score part G = Inr (1/2)"

definition example_fa2 :: "graph \<Rightarrow> nat \<Rightarrow> layout" where
  "example_fa2 H iterations = map (\<lambda>(n, a). (n, (real_of_int n, 0))) (g_node H)"

definition example_communities :: "(int, int list) dict" where
  "example_communities = [(0, [1, 2]), (1, [3, 4])]"

section \<open>Dictionaries and graphs: lemmas\<close>

lemma map_of_dict_set: "map_of (dict_set k v d) = (map_of d)(k \<mapsto> v)"
  by (induction d) (auto simp: fun_eq_iff)

lemma keys_dict_set:
  "keys (dict_set k v d) = (if k \<in> set (keys d) then keys d else keys d @ [k])"
  by (induction d) (force simp: keys_def)+

lemma set_keys_dict_set: "set (keys (dict_set k v d)) = insert k (set (keys d))"
  by (auto simp: keys_dict_set)

lemma distinct_keys_dict_set: "distinct (keys d) \<Longrightarrow> distinct (keys (dict_set k v d))"
  by (simp add: keys_dict_set)

lemma map_of_None_keys: "map_of d k = None \<longleftrightarrow> k \<notin> set (keys d)"
  by (simp add: keys_def map_of_eq_None_iff)

lemma nbrs_add_node: "graph_inv G \<Longrightarrow> nbrs (add_node G n) a = nbrs G a"
proof (cases "n \<in> set (keys (g_node G))")
  case True
  then show ?thesis by (simp add: add_node_def)
next
  case False
  assume "graph_inv G"
  with False have "map_of (g_adj G) n = None"
    by (simp add: graph_inv_def map_of_None_keys)
  with False show ?thesis
    by (simp add: nbrs_def add_node_def map_of_dict_set)
qed

lemma graph_inv_add_node: "graph_inv G \<Longrightarrow> graph_inv (add_node G n)"
  by (auto simp: add_node_def graph_inv_def set_keys_dict_set)

lemma graph_inv_add_edge: "graph_inv G \<Longrightarrow> graph_inv (add_edge G u v w)"
  by (auto simp: add_edge_def Let_def graph_inv_def set_keys_dict_set add_node_def)

lemma edge_weight_add_edge:
  "graph_inv G \<Longrightarrow> edge_weight (add_edge G u v w) a b =
     (if (a = u \<and> b = v) \<or> (a = v \<and> b = u) then Some w else edge_weight G a b)"
  using nbrs_add_node[of "add_node G u" v] nbrs_add_node[of G u] graph_inv_add_node[of G u]
  by (auto simp: edge_weight_def add_edge_def Let_def nbrs_def map_of_dict_set)

lemma iterrows_map: "iterrows data = map (\<lambda>i. (i, data ! i)) [0..<length data]"
  unfolding iterrows_def
  by (rule nth_equalityI) simp_all

lemma filter_less_upt: "filter (\<lambda>j. i < j) [0..<n] = [Suc i..<n]"
  by (induction n) auto

lemma concat_map_if:
  "concat (map (\<lambda>j. if P j then [f j] else []) xs) = map f (filter P xs)"
  by (induction xs) auto

lemma calculate_edges_eq:
  "calculate_edges data sf =
     concat (map (\<lambda>i. map (\<lambda>j. make_edge sf (data ! i) (data ! j)) [Suc i..<length data])
       [0..<length data])"
  by (simp add: calculate_edges_def iterrows_map comp_def concat_map_if filter_less_upt)

lemma sum_list_upt_rev: "(\<Sum>i\<leftarrow>[0..<n]. n - Suc i) = n * (n - 1) div 2"
proof (induction n)
  case 0
  show ?case by simp
next
  case (Suc n)
  have "map (\<lambda>i. n - i) [0..<n] = map (\<lambda>i. Suc (n - Suc i)) [0..<n]"
    by (rule map_cong) (auto simp: Suc_diff_Suc)
  then have "sum_list (map (\<lambda>i. n - i) [0..<n]) = sum_list (map (\<lambda>i. Suc (n - Suc i)) [0..<n])"
    by (rule arg_cong)
  then have "(\<Sum>i\<leftarrow>[0..<Suc n]. Suc n - Suc i) = (\<Sum>i\<leftarrow>[0..<n]. Suc (n - Suc i))"
    by simp
  also have "\<dots> = n + (\<Sum>i\<leftarrow>[0..<n]. n - Suc i)"
    by (simp add: sum_list_Suc)
  finally show ?case using Suc by (cases n) auto
qed

lemma length_calculate_edges:
  "length (calculate_edges data sf) = length data * (length data - 1) div 2"
  by (simp add: calculate_edges_eq length_concat comp_def sum_list_upt_rev)

lemma set_calculate_edges:
  "set (calculate_edges data sf) =
     {make_edge sf (data ! i) (data ! j) | i j. i < j \<and> j < length data}"
proof -
  have "\<And>i j. i < j \<Longrightarrow> j < length data \<Longrightarrow> \<exists>x\<in>{0..<length data}.
      make_edge sf (data ! i) (data ! j)
        \<in> (\<lambda>xa. make_edge sf (data ! x) (data ! xa)) ` {Suc x..<length data}"
    subgoal for i j by (rule bexI[of _ i]) auto
    done
  moreover have "\<And>xa xb. Suc xa \<le> xb \<Longrightarrow> xb < length data \<Longrightarrow>
      \<exists>i j. make_edge sf (data ! xa) (data ! xb) = make_edge sf (data ! i) (data ! j)
        \<and> i < j \<and> j < length data"
    subgoal for xa xb by (rule exI[of _ xa], rule exI[of _ xb]) auto
    done
  ultimately show ?thesis by (auto simp: calculate_edges_eq)
qed

lemma make_edge_weight:
  assumes "0 \<le> sf"
  shows "0 < Weight (make_edge sf r1 r2)" "Weight (make_edge sf r1 r2) \<le> 1"
    "Weight (make_edge sf r1 r2) = 1 / (1 + Distance (make_edge sf r1 r2))"
    "0 \<le> Distance (make_edge sf r1 r2)"
proof -
  have "0 \<le> calculate_euclidean_distance r1 r2 * sf"
    using assms by (simp add: calculate_euclidean_distance_def)
  then show "0 < Weight (make_edge sf r1 r2)" "Weight (make_edge sf r1 r2) \<le> 1"
    "Weight (make_edge sf r1 r2) = 1 / (1 + Distance (make_edge sf r1 r2))"
    "0 \<le> Distance (make_edge sf r1 r2)"
    by (simp_all add: make_edge_def Let_def)
qed

lemma find_append:
  "find P (xs @ ys) = (case find P xs of None \<Rightarrow> find P ys | Some x \<Rightarrow> Some x)"
  by (induction xs) auto

lemma graph_inv_empty: "graph_inv empty_graph"
  by (simp add: graph_inv_def empty_graph_def keys_def)

lemma graph_inv_add_edges: "graph_inv G \<Longrightarrow> graph_inv (add_edges es G)"
  unfolding add_edges_def
  by (induction es arbitrary: G) (simp_all add: graph_inv_add_edge)

lemma edge_weight_add_edges:
  "graph_inv G \<Longrightarrow> edge_weight (add_edges es G) u v =
     (case find (same_pair u v) (rev es) of
        Some e \<Rightarrow> Some (Weight e) | None \<Rightarrow> edge_weight G u v)"
proof (induction es arbitrary: G)
  case Nil
  show ?case by (simp add: add_edges_def)
next
  case (Cons e es)
  have "add_edges (e # es) G = add_edges es (add_edge G (Source e) (Target e) (Weight e))"
    by (simp add: add_edges_def)
  moreover have "graph_inv (add_edge G (Source e) (Target e) (Weight e))"
    using Cons.prems by (rule graph_inv_add_edge)
  ultimately show ?case
    using Cons.IH[of "add_edge G (Source e) (Target e) (Weight e)"] Cons.prems
    by (auto simp: find_append edge_weight_add_edge same_pair_def split: option.splits)
qed

lemma graph_inv_set_node_row: "graph_inv G \<Longrightarrow> graph_inv (set_node_row G r)"
  using graph_inv_add_node[of G "Id r"]
  by (auto simp: set_node_row_def Let_def graph_inv_def set_keys_dict_set add_node_def)

lemma nbrs_set_node_row: "graph_inv G \<Longrightarrow> nbrs (set_node_row G r) a = nbrs G a"
  using nbrs_add_node[of G "Id r" a]
  by (simp add: set_node_row_def Let_def nbrs_def)

lemma nbrs_set_node_rows:
  "graph_inv G \<Longrightarrow> nbrs (fold (\<lambda>node G. set_node_row G node) rows G) a = nbrs G a"
  by (induction rows arbitrary: G) (simp_all add: graph_inv_set_node_row nbrs_set_node_row)

lemma build_graph_add_edges:
  "build_graph nodes_df edges_df =
     fold (\<lambda>node G. set_node_row G node) nodes_df
       (add_edges (map edge_row edges_df) empty_graph)"
  by (simp add: build_graph_def add_edges_def)

lemma float64_of_int_exact: "\<bar>n\<bar> \<le> 2 ^ 53 \<Longrightarrow> float64_of_int n = n"
  by (simp add: float64_of_int_def Let_def nat_le_iff)

lemma edge_row_exact:
  "\<bar>Source e\<bar> \<le> 2 ^ 53 \<Longrightarrow> \<bar>Target e\<bar> \<le> 2 ^ 53 \<Longrightarrow> edge_row e = e"
  by (simp add: edge_row_def float64_of_int_exact)

lemma map_edge_row_exact:
  "\<forall>e \<in> set es. \<bar>Source e\<bar> \<le> 2 ^ 53 \<and> \<bar>Target e\<bar> \<le> 2 ^ 53 \<Longrightarrow> map edge_row es = es"
  by (induction es) (simp_all add: edge_row_exact)

lemma Weight_edge_row: "Weight (edge_row e) = Weight e"
  by (simp add: edge_row_def)

lemma float64_of_int_tie: "float64_of_int 9007199254740993 = 9007199254740992"
proof -
  have "bit_length 9007199254740993 = 54"
    by (simp add: bit_length.simps)
  then show ?thesis
    by (simp add: float64_of_int_def Let_def)
qed

lemma edge_weight_empty: "edge_weight empty_graph u v = None"
  by (simp add: edge_weight_def nbrs_def empty_graph_def)

lemma edge_weight_build_graph:
  "edge_weight (build_graph nodes_df edges_df) u v =
     map_option Weight (find (same_pair u v) (rev (map edge_row edges_df)))"
  using nbrs_set_node_rows[OF graph_inv_add_edges[OF graph_inv_empty], of nodes_df
      "map edge_row edges_df" u]
    edge_weight_add_edges[OF graph_inv_empty, of "map edge_row edges_df" u v]
  by (simp add: build_graph_add_edges edge_weight_def edge_weight_empty[unfolded edge_weight_def]
      split: option.splits)

lemma edge_weight_build_graph_exact:
  assumes "\<forall>e \<in> set edges_df. \<bar>Source e\<bar> \<le> 2 ^ 53 \<and> \<bar>Target e\<bar> \<le> 2 ^ 53"
  shows "edge_weight (build_graph nodes_df edges_df) u v =
     map_option Weight (find (same_pair u v) (rev edges_df))"
  by (simp add: edge_weight_build_graph map_edge_row_exact[OF assms])

lemma nbrs_dict_set:
  "nbrs (G\<lparr>g_adj := dict_set u d (g_adj G)\<rparr>) a = (if a = u then d else nbrs G a)"
  by (simp add: nbrs_def map_of_dict_set)

lemma simple_adj_set_nbrs:
  "simple_adj G \<Longrightarrow> distinct (keys d) \<Longrightarrow> simple_adj (G\<lparr>g_adj := dict_set u d (g_adj G)\<rparr>)"
  by (simp add: simple_adj_def nbrs_dict_set)

lemma simple_adj_add_node: "graph_inv G \<Longrightarrow> simple_adj G \<Longrightarrow> simple_adj (add_node G n)"
  by (simp add: simple_adj_def nbrs_add_node)

lemma simple_adj_add_edge:
  assumes "graph_inv G" "simple_adj G"
  shows "simple_adj (add_edge G u v w)"
proof -
  define G1 where "G1 = add_node (add_node G u) v"
  define G2 where "G2 = G1\<lparr>g_adj := dict_set u (dict_set v w (nbrs G1 u)) (g_adj G1)\<rparr>"
  have "simple_adj G1"
    unfolding G1_def using assms by (simp add: simple_adj_add_node graph_inv_add_node)
  then have "simple_adj G2"
    unfolding G2_def by (intro simple_adj_set_nbrs distinct_keys_dict_set) (simp_all add: simple_adj_def)
  then have "simple_adj (G2\<lparr>g_adj := dict_set v (dict_set u w (nbrs G2 v)) (g_adj G2)\<rparr>)"
    by (intro simple_adj_set_nbrs distinct_keys_dict_set) (simp_all add: simple_adj_def)
  then show ?thesis
    by (simp add: add_edge_def Let_def G1_def G2_def)
qed

lemma simple_adj_add_edges:
  "graph_inv G \<Longrightarrow> simple_adj G \<Longrightarrow> simple_adj (add_edges es G)"
  unfolding add_edges_def
  by (induction es arbitrary: G) (simp_all add: graph_inv_add_edge simple_adj_add_edge)

lemma simple_adj_empty: "simple_adj empty_graph"
  by (simp add: simple_adj_def nbrs_def empty_graph_def keys_def)

lemma simple_adj_build_graph: "simple_adj (build_graph nodes_df edges_df)"
  using simple_adj_add_edges[OF graph_inv_empty simple_adj_empty, of "map edge_row edges_df"]
    nbrs_set_node_rows[OF graph_inv_add_edges[OF graph_inv_empty], of nodes_df
      "map edge_row edges_df"]
  by (simp add: simple_adj_def build_graph_add_edges)

text \<open>
  Ids beyond \<open>2^53\<close> can share a node: the third entry below is read as an entry for the
  pair \<open>(2^53, 7)\<close> and replaces its weight.
\<close>

lemma build_graph_large_ids_share_node:
  "edge_weight (build_graph []
      [\<lparr>Source = 9007199254740992, Target = 7, Distance = 1, Weight = 1/2\<rparr>,
       \<lparr>Source = 9007199254740992, Target = 7, Distance = 7/3, Weight = 3/10\<rparr>,
       \<lparr>Source = 9007199254740993, Target = 7, Distance = 3, Weight = 1/4\<rparr>])
     9007199254740992 7 = Some (1/4)"
  by (simp add: edge_weight_build_graph edge_row_def float64_of_int_tie float64_of_int_exact
      same_pair_def)

text \<open>
  Claim C3, as the code has it. For every edge list whose ids are at most \<open>2^53\<close> in
  absolute value (so that the float64 rows of \<open>iterrows\<close> hold them exactly), the graph
  holds one edge for a pair of nodes (a neighbour dictionary has each neighbour once), and
  its weight is the weight of the last entry of the list for that unordered pair: a
  repeated insertion replaces the weight and adds nothing to it.
\<close>

theorem build_graph_repeated_pair_last_weight:
  assumes "\<forall>e \<in> set edges_df. \<bar>Source e\<bar> \<le> 2 ^ 53 \<and> \<bar>Target e\<bar> \<le> 2 ^ 53"
  shows "edge_weight (build_graph nodes_df edges_df) u v =
     map_option Weight (find (same_pair u v) (rev edges_df))
   \<and> distinct (keys (nbrs (build_graph nodes_df edges_df) u))"
  using simple_adj_build_graph[of nodes_df edges_df]
  by (simp add: edge_weight_build_graph_exact[OF assms] simple_adj_def)

theorem build_graph_repeated_pair_last_weight_witness:
  "\<bar>1::int\<bar> \<le> 2 ^ 53 \<and> \<bar>2::int\<bar> \<le> 2 ^ 53 \<and> \<bar>3::int\<bar> \<le> 2 ^ 53
   \<and> edge_weight (build_graph []
        [\<lparr>Source = 1, Target = 2, Distance = 1, Weight = 1/2\<rparr>,
         \<lparr>Source = 2, Target = 1, Distance = 4, Weight = 1/5\<rparr>,
         \<lparr>Source = 1, Target = 3, Distance = 0, Weight = 1\<rparr>]) 2 1 = Some (1/5)"
proof -
  let ?es = "[\<lparr>Source = 1, Target = 2, Distance = 1, Weight = 1/2\<rparr>,
         \<lparr>Source = 2, Target = 1, Distance = 4, Weight = 1/5\<rparr>,
         \<lparr>Source = 1, Target = 3, Distance = 0, Weight = 1::real\<rparr>]"
  have b: "\<forall>e \<in> set ?es. \<bar>Source e\<bar> \<le> 2 ^ 53 \<and> \<bar>Target e\<bar> \<le> 2 ^ 53"
    by simp
  from build_graph_repeated_pair_last_weight[OF b, of "[]" 2 1]
  have "edge_weight (build_graph [] ?es) 2 1 = Some (1/5)"
    by (simp add: same_pair_def)
  then show ?thesis by simp
qed

text \<open>
  Claim C3 as stated fails: two entries for the pair \<open>(1, 2)\<close> with weights \<open>1/2\<close> and
  \<open>1/4\<close> leave the weight \<open>1/4\<close>, not the sum \<open>3/4\<close>.
\<close>

theorem build_graph_repeated_pair_counterexample:
  "edge_weight (build_graph []
      [\<lparr>Source = 1, Target = 2, Distance = 1, Weight = 1/2\<rparr>,
       \<lparr>Source = 1, Target = 2, Distance = 3, Weight = 1/4\<rparr>]) 1 2 = Some (1/4)
   \<and> (1/4 :: real) \<noteq> 1/2 + 1/4"
  by (simp add: edge_weight_build_graph_exact same_pair_def)

text \<open>
  Claim C4, as the code has it. \<open>build_graph\<close> rejects no insertion: whatever the weight
  and the endpoints of an entry (ids at most \<open>2^53\<close> in absolute value, which the float64
  row holds exactly), inserting it stores its weight for its pair of endpoints and leaves
  the weight of every other pair as it was.
\<close>

theorem build_graph_accepts_every_insertion:
  assumes "\<bar>Source e\<bar> \<le> 2 ^ 53" and "\<bar>Target e\<bar> \<le> 2 ^ 53"
  shows "edge_weight (build_graph nodes_df (edges_df @ [e])) a b =
     (if same_pair a b e then Some (Weight e)
      else edge_weight (build_graph nodes_df edges_df) a b)"
  by (simp add: edge_weight_build_graph edge_row_exact[OF assms])

theorem build_graph_accepts_every_insertion_witness:
  "\<bar>1::int\<bar> \<le> 2 ^ 53
   \<and> edge_weight (build_graph []
        ([\<lparr>Source = 1, Target = 2, Distance = 1, Weight = 1/2\<rparr>]
          @ [\<lparr>Source = 1, Target = 1, Distance = 0, Weight = - 1\<rparr>])) 1 1 = Some (- 1)
   \<and> edge_weight (build_graph []
        ([\<lparr>Source = 1, Target = 2, Distance = 1, Weight = 1/2\<rparr>]
          @ [\<lparr>Source = 1, Target = 1, Distance = 0, Weight = - 1\<rparr>])) 1 2 = Some (1/2)"
proof -
  let ?old = "\<lparr>Source = 1, Target = 2, Distance = 1, Weight = 1/2::real\<rparr>"
  let ?new = "\<lparr>Source = 1, Target = 1, Distance = 0, Weight = - 1::real\<rparr>"
  have s: "\<bar>Source ?new\<bar> \<le> 2 ^ 53" and t: "\<bar>Target ?new\<bar> \<le> 2 ^ 53"
    by simp_all
  have old: "edge_weight (build_graph [] [?old]) 1 2 = Some (1/2)"
    by (simp add: edge_weight_build_graph_exact same_pair_def)
  from build_graph_accepts_every_insertion[OF s t, of "[]" "[?old]" 1 1]
  have l: "edge_weight (build_graph [] ([?old] @ [?new])) 1 1 = Some (- 1)"
    by (simp add: same_pair_def)
  from build_graph_accepts_every_insertion[OF s t, of "[]" "[?old]" 1 2] old
  have k: "edge_weight (build_graph [] ([?old] @ [?new])) 1 2 = Some (1/2)"
    by (simp add: same_pair_def)
  from l k show ?thesis by simp
qed

text \<open>
  Claim C4 as stated fails: an entry from node \<open>1\<close> to itself with weight \<open>-1\<close> is not
  rejected; the graph holds it.
\<close>

theorem build_graph_invalid_edge_counterexample:
  "edge_weight (build_graph [] [\<lparr>Source = 1, Target = 1, Distance = 0, Weight = - 1\<rparr>]) 1 1
     = Some (- 1)"
  by (simp add: edge_weight_build_graph_exact same_pair_def)

lemma distinct_concat_Pair:
  "distinct xs \<Longrightarrow> (\<And>i. distinct (f i)) \<Longrightarrow>
     distinct (concat (map (\<lambda>i. map (Pair i) (f i)) xs))"
  by (induction xs) (auto simp: distinct_map inj_on_def)

lemma distinct_row_pairs: "distinct (row_pairs n)"
  unfolding row_pairs_def by (rule distinct_concat_Pair) simp_all

lemma set_row_pairs: "set (row_pairs n) = {(i, j). i < j \<and> j < n}"
proof -
  have "\<And>a b. a < b \<Longrightarrow> b < n \<Longrightarrow> \<exists>x\<in>{0..<n}. (a, b) \<in> Pair x ` {Suc x..<n}"
    subgoal for a b by (rule bexI[of _ a]) auto
    done
  then show ?thesis by (auto simp: row_pairs_def)
qed

lemma calculate_edges_row_pairs:
  "calculate_edges data sf =
     map (\<lambda>(i, j). make_edge sf (data ! i) (data ! j)) (row_pairs (length data))"
  by (simp add: calculate_edges_eq row_pairs_def map_concat comp_def)

lemma distinct_calculate_edges_pairs:
  assumes "distinct (map Id data)"
  shows "distinct (map (\<lambda>e. {Source e, Target e}) (calculate_edges data sf))"
proof -
  have ne: "Id (data ! i) = Id (data ! j) \<longleftrightarrow> i = j" if "i < length data" "j < length data" for i j
    using assms that nth_eq_iff_index_eq[of "map Id data" i j] by simp
  have "inj_on (\<lambda>p. {Id (data ! fst p), Id (data ! snd p)}) (set (row_pairs (length data)))"
    unfolding set_row_pairs
  proof (rule inj_onI, clarsimp)
    fix i j i' j'
    assume a: "i < j" "j < length data" "i' < j'" "j' < length data"
      and eq: "{Id (data ! i), Id (data ! j)} = {Id (data ! i'), Id (data ! j')}"
    from eq consider "Id (data ! i) = Id (data ! i')" "Id (data ! j) = Id (data ! j')"
      | "Id (data ! i) = Id (data ! j')" "Id (data ! j) = Id (data ! i')"
      by (auto simp: doubleton_eq_iff)
    then show "i = i' \<and> j = j'"
    proof cases
      case 1
      then show ?thesis using a ne[of i i'] ne[of j j'] by simp
    next
      case 2
      then have "i = j'" "j = i'" using a ne[of i j'] ne[of j i'] by simp_all
      with a show ?thesis by simp
    qed
  qed
  then show ?thesis
    by (simp add: calculate_edges_row_pairs distinct_map distinct_row_pairs comp_def
        case_prod_beta make_edge_def Let_def)
qed

lemma calculate_edges_distinct_ends:
  assumes "distinct (map Id data)" "e \<in> set (calculate_edges data sf)"
  shows "Source e \<noteq> Target e"
proof -
  from assms(2) obtain i j where ij: "i < j" "j < length data"
    and e: "e = make_edge sf (data ! i) (data ! j)"
    by (auto simp: set_calculate_edges)
  have "Id (data ! i) \<noteq> Id (data ! j)"
    using assms(1) ij nth_eq_iff_index_eq[of "map Id data" i j] by simp
  then show ?thesis by (simp add: e make_edge_def Let_def)
qed

lemma find_Some_set: "find P xs = Some x \<Longrightarrow> x \<in> set xs \<and> P x"
  by (induction xs) (auto split: if_splits)

lemma calculate_edges_rows:
  "calculate_edges data sf =
     concat (map (\<lambda>i. map (\<lambda>j.
       \<lparr>Source = Id (data ! i), Target = Id (data ! j),
        Distance = sqrt ((Theta (data ! i) - Theta (data ! j))\<^sup>2
                         + (Alpha (data ! i) - Alpha (data ! j))\<^sup>2) * sf,
        Weight = 1 / (1 + sqrt ((Theta (data ! i) - Theta (data ! j))\<^sup>2
                                + (Alpha (data ! i) - Alpha (data ! j))\<^sup>2) * sf)\<rparr>)
       [Suc i..<length data]) [0..<length data])"
  by (simp add: calculate_edges_eq make_edge_def calculate_euclidean_distance_def Let_def)

lemma square_diff_bound:
  fixes x y :: real
  assumes "\<bar>x\<bar> \<le> 10 ^ 100" "\<bar>y\<bar> \<le> 10 ^ 100"
  shows "(x - y)\<^sup>2 \<le> 4 * 10 ^ 200"
proof -
  have "\<bar>x - y\<bar> \<le> 2 * 10 ^ 100" using assms by linarith
  then have "(x - y)\<^sup>2 \<le> (2 * 10 ^ 100)\<^sup>2"
    by (metis abs_le_square_iff abs_of_nonneg zero_le_numeral zero_le_power mult_nonneg_nonneg)
  also have "\<dots> = (4 * 10 ^ 200 :: real)" by simp
  finally show ?thesis .
qed

lemma make_edge_distance_bound:
  assumes "\<bar>Theta r1\<bar> \<le> 10 ^ 100" "\<bar>Alpha r1\<bar> \<le> 10 ^ 100"
    and "\<bar>Theta r2\<bar> \<le> 10 ^ 100" "\<bar>Alpha r2\<bar> \<le> 10 ^ 100"
    and "0 \<le> sf" "sf \<le> 10 ^ 100"
  shows "Distance (make_edge sf r1 r2) \<le> 3 * 10 ^ 200"
proof -
  have "(Theta r1 - Theta r2)\<^sup>2 + (Alpha r1 - Alpha r2)\<^sup>2 \<le> 8 * 10 ^ 200"
    using square_diff_bound[OF assms(1,3)] square_diff_bound[OF assms(2,4)] by linarith
  also have "\<dots> \<le> (3 * 10 ^ 100 :: real)\<^sup>2" by simp
  finally have "calculate_euclidean_distance r1 r2 \<le> 3 * 10 ^ 100"
    unfolding calculate_euclidean_distance_def by (intro real_le_lsqrt) simp_all
  moreover have "0 \<le> calculate_euclidean_distance r1 r2"
    by (simp add: calculate_euclidean_distance_def)
  ultimately have "calculate_euclidean_distance r1 r2 * sf \<le> (3 * 10 ^ 100) * 10 ^ 100"
    using assms(5,6) by (intro mult_mono) simp_all
  then show ?thesis by (simp add: make_edge_def Let_def)
qed

text \<open>
  Claim C9, as the code has it. Let the node table have pairwise distinct Ids of at most
  \<open>2^53\<close> in absolute value (ids that the float64 rows of \<open>iterrows\<close> hold exactly) and
  features \<open>Theta\<close>, \<open>Alpha\<close> of at most \<open>10^100\<close> in absolute value, and let the scaling
  factor lie between \<open>0\<close> and \<open>10^100\<close> (the default is \<open>100\<close>), so that no float
  overflows. Then \<open>calculate_edges\<close> emits, for each pair of rows \<open>i < j\<close>, the edge from
  \<open>Id i\<close> to \<open>Id j\<close> with the scaled Euclidean distance of their features and the weight
  \<open>1 / (1 + distance)\<close>: \<open>n (n - 1) / 2\<close> edges, no unordered pair twice, each with a
  distance of at most \<open>3 * 10^200\<close>, a weight in \<open>(0, 1]\<close> and two distinct endpoints. And
  every edge stored in the graph that \<open>build_graph\<close> makes of the edges kept by
  \<open>filter_edges_by_threshold\<close> has a weight in \<open>(0, 1]\<close> that is at least the threshold,
  and two distinct endpoints.
\<close>

theorem pipeline_edges_positive_distinct_ends:
  assumes "distinct (map Id data)"
    and "\<forall>row \<in> set data. \<bar>Id row\<bar> \<le> 2 ^ 53
           \<and> \<bar>Theta row\<bar> \<le> 10 ^ 100 \<and> \<bar>Alpha row\<bar> \<le> 10 ^ 100"
    and "0 \<le> scaling_factor" and "scaling_factor \<le> 10 ^ 100"
  shows "calculate_edges data scaling_factor =
       concat (map (\<lambda>i. map (\<lambda>j.
         \<lparr>Source = Id (data ! i), Target = Id (data ! j),
          Distance = sqrt ((Theta (data ! i) - Theta (data ! j))\<^sup>2
                           + (Alpha (data ! i) - Alpha (data ! j))\<^sup>2) * scaling_factor,
          Weight = 1 / (1 + sqrt ((Theta (data ! i) - Theta (data ! j))\<^sup>2
                           + (Alpha (data ! i) - Alpha (data ! j))\<^sup>2) * scaling_factor)\<rparr>)
         [Suc i..<length data]) [0..<length data])
    \<and> length (calculate_edges data scaling_factor) = length data * (length data - 1) div 2
    \<and> distinct (map (\<lambda>e. {Source e, Target e}) (calculate_edges data scaling_factor))
    \<and> (\<forall>e \<in> set (calculate_edges data scaling_factor).
           Weight e = 1 / (1 + Distance e) \<and> 0 \<le> Distance e \<and> Distance e \<le> 3 * 10 ^ 200
           \<and> 0 < Weight e \<and> Weight e \<le> 1 \<and> Source e \<noteq> Target e)
    \<and> (\<forall>u v w. edge_weight (build_graph data
             (filter_edges_by_threshold (calculate_edges data scaling_factor) threshold)) u v
             = Some w \<longrightarrow> 0 < w \<and> w \<le> 1 \<and> threshold \<le> w \<and> u \<noteq> v)"
proof -
  note rows = calculate_edges_rows[of data scaling_factor]
  have len: "length (calculate_edges data scaling_factor) = length data * (length data - 1) div 2"
    by (rule length_calculate_edges)
  have dist: "distinct (map (\<lambda>e. {Source e, Target e}) (calculate_edges data scaling_factor))"
    using assms(1) by (rule distinct_calculate_edges_pairs)
  have all: "\<forall>e \<in> set (calculate_edges data scaling_factor).
           Weight e = 1 / (1 + Distance e) \<and> 0 \<le> Distance e \<and> Distance e \<le> 3 * 10 ^ 200
           \<and> 0 < Weight e \<and> Weight e \<le> 1 \<and> Source e \<noteq> Target e"
  proof
    fix e assume e: "e \<in> set (calculate_edges data scaling_factor)"
    then obtain i j where ij: "i < j" "j < length data"
      and eq: "e = make_edge scaling_factor (data ! i) (data ! j)"
      by (auto simp: set_calculate_edges)
    from ij have "data ! i \<in> set data" "data ! j \<in> set data" by simp_all
    with assms(2) have "\<bar>Theta (data ! i)\<bar> \<le> 10 ^ 100" "\<bar>Alpha (data ! i)\<bar> \<le> 10 ^ 100"
      "\<bar>Theta (data ! j)\<bar> \<le> 10 ^ 100" "\<bar>Alpha (data ! j)\<bar> \<le> 10 ^ 100"
      by blast+
    from make_edge_distance_bound[OF this assms(3,4)]
    have "Distance e \<le> 3 * 10 ^ 200" by (simp add: eq)
    with make_edge_weight[OF assms(3)] calculate_edges_distinct_ends[OF assms(1) e]
    show "Weight e = 1 / (1 + Distance e) \<and> 0 \<le> Distance e \<and> Distance e \<le> 3 * 10 ^ 200
           \<and> 0 < Weight e \<and> Weight e \<le> 1 \<and> Source e \<noteq> Target e"
      by (simp add: eq)
  qed
  let ?es = "filter_edges_by_threshold (calculate_edges data scaling_factor) threshold"
  have exact: "\<forall>e \<in> set ?es. \<bar>Source e\<bar> \<le> 2 ^ 53 \<and> \<bar>Target e\<bar> \<le> 2 ^ 53"
  proof
    fix e assume "e \<in> set ?es"
    then have "e \<in> set (calculate_edges data scaling_factor)"
      by (simp add: filter_edges_by_threshold_def)
    then obtain i j where ij: "i < j" "j < length data"
      and eq: "e = make_edge scaling_factor (data ! i) (data ! j)"
      by (auto simp: set_calculate_edges)
    from ij have "data ! i \<in> set data" "data ! j \<in> set data" by simp_all
    with assms(2) have "\<bar>Id (data ! i)\<bar> \<le> 2 ^ 53" "\<bar>Id (data ! j)\<bar> \<le> 2 ^ 53"
      by blast+
    then show "\<bar>Source e\<bar> \<le> 2 ^ 53 \<and> \<bar>Target e\<bar> \<le> 2 ^ 53"
      by (simp add: eq make_edge_def Let_def)
  qed
  have stored: "\<forall>u v w. edge_weight (build_graph data ?es) u v = Some w
      \<longrightarrow> 0 < w \<and> w \<le> 1 \<and> threshold \<le> w \<and> u \<noteq> v"
  proof (intro allI impI)
    fix u v w
    assume "edge_weight (build_graph data ?es) u v = Some w"
    then obtain e where f: "find (same_pair u v) (rev ?es) = Some e" and w: "w = Weight e"
      by (auto simp: edge_weight_build_graph_exact[OF exact])
    from find_Some_set[OF f] have m: "e \<in> set (calculate_edges data scaling_factor)"
      and t: "threshold \<le> Weight e" and sp: "same_pair u v e"
      by (simp_all add: filter_edges_by_threshold_def)
    from bspec[OF all m] have "0 < Weight e" "Weight e \<le> 1" "Source e \<noteq> Target e"
      by blast+
    with sp w t show "0 < w \<and> w \<le> 1 \<and> threshold \<le> w \<and> u \<noteq> v"
      by (auto simp: same_pair_def)
  qed
  from rows len dist all stored show ?thesis by blast
qed

theorem pipeline_edges_positive_distinct_ends_witness:
  "distinct (map Id example_rows) \<and> (0::real) \<le> 100 \<and> (100::real) \<le> 10 ^ 100
   \<and> length (calculate_edges example_rows 100) = 6
   \<and> distinct (map (\<lambda>e. {Source e, Target e}) (calculate_edges example_rows 100))"
proof -
  have d: "distinct (map Id example_rows)"
    by (simp add: example_rows_def example_row_def)
  have b: "\<forall>row \<in> set example_rows. \<bar>Id row\<bar> \<le> 2 ^ 53
           \<and> \<bar>Theta row\<bar> \<le> 10 ^ 100 \<and> \<bar>Alpha row\<bar> \<le> 10 ^ 100"
    by (simp add: example_rows_def example_row_def)
  have s: "(0::real) \<le> 100" and s': "(100::real) \<le> 10 ^ 100" by simp_all
  have l: "length example_rows = 4" by (simp add: example_rows_def)
  note t = pipeline_edges_positive_distinct_ends[OF d b s s', of "3/20", unfolded l]
  have n: "length (calculate_edges example_rows 100) = 6"
    using t[THEN conjunct2, THEN conjunct1] by simp
  from d s s' n t show ?thesis by blast
qed

text \<open>
  Claim C9 as stated fails for ids that float64 does not hold exactly: the rows with the
  distinct Ids \<open>2^53\<close> and \<open>2^53 + 1\<close> and equal features give one edge of weight \<open>1\<close>,
  whose endpoints \<open>build_graph\<close> reads from a float64 row as \<open>2^53\<close> both, and the graph
  stores an edge from node \<open>2^53\<close> to itself.
\<close>

theorem pipeline_large_ids_counterexample:
  "distinct (map Id large_id_rows)
   \<and> edge_weight (build_graph large_id_rows
        (filter_edges_by_threshold (calculate_edges large_id_rows 100) (3/20)))
        9007199254740992 9007199254740992 = Some 1"
proof -
  have d: "distinct (map Id large_id_rows)"
    by (simp add: large_id_rows_def example_row_def)
  have c: "calculate_edges large_id_rows 100 =
      [\<lparr>Source = 9007199254740992, Target = 9007199254740993, Distance = 0, Weight = 1\<rparr>]"
    by (simp add: calculate_edges_rows large_id_rows_def example_row_def)
  have r: "edge_row \<lparr>Source = 9007199254740992, Target = 9007199254740993,
                     Distance = 0, Weight = 1\<rparr> =
      \<lparr>Source = 9007199254740992, Target = 9007199254740992, Distance = 0, Weight = 1\<rparr>"
    by (simp add: edge_row_def float64_of_int_tie float64_of_int_exact)
  have "edge_weight (build_graph large_id_rows
        (filter_edges_by_threshold (calculate_edges large_id_rows 100) (3/20)))
        9007199254740992 9007199254740992 = Some 1"
    by (simp add: c filter_edges_by_threshold_def edge_weight_build_graph r same_pair_def)
  with d show ?thesis by simp
qed

section \<open>The global layout: lemmas\<close>

lemma dict_set_new: "k \<notin> set (keys d) \<Longrightarrow> dict_set k v d = d @ [(k, v)]"
  by (induction d) (auto simp: keys_def)

lemma map_of_fold_dict_set:
  "map_of (fold (\<lambda>x. dict_set (kf x) (vf x)) xs d) =
     map_of (map (\<lambda>x. (kf x, vf x)) (rev xs) @ d)"
proof (induction xs arbitrary: d)
  case Nil
  show ?case by simp
next
  case (Cons x xs)
  have "map_of (dict_set (kf x) (vf x) d) = map_of ((kf x, vf x) # d)"
    by (simp add: map_of_dict_set fun_eq_iff)
  then show ?case
    by (simp add: Cons.IH map_of_append)
qed

lemma map_of_fold_dict_set_distinct:
  assumes "distinct (map kf xs)" "x \<in> set xs"
  shows "map_of (fold (\<lambda>x. dict_set (kf x) (vf x)) xs []) (kf x) = Some (vf x)"
proof -
  have "distinct (map fst (map (\<lambda>x. (kf x, vf x)) (rev xs)))"
    using assms(1) by (simp add: comp_def rev_map[symmetric] del: rev_map)
  moreover have "(kf x, vf x) \<in> set (map (\<lambda>x. (kf x, vf x)) (rev xs))"
    using assms(2) by auto
  ultimately show ?thesis
    by (simp add: map_of_fold_dict_set del: map_map rev_map set_map)
qed

lemma centroid_of_nonempty: "p \<noteq> [] \<Longrightarrow> centroid_of p = Inr (ctr p)"
  by (simp add: centroid_of_def ctr_def mean_def Let_def dict_values_def)

lemma local_layouts_eq:
  assumes "distinct (keys lp @ keys cs)" "distinct (keys cc @ keys cs)"
    and "\<forall>(c, ns) \<in> set cs. fa2 (subgraph G ns) it \<noteq> []"
  shows "local_layouts fa2 G it cs (lp, cc) =
     Inr (lp @ map (\<lambda>(c, ns). (c, fa2 (subgraph G ns) it)) cs,
          cc @ map (\<lambda>(c, ns). (c, ctr (fa2 (subgraph G ns) it))) cs)"
  using assms
proof (induction cs arbitrary: lp cc)
  case Nil
  show ?case by simp
next
  case (Cons a cs)
  obtain c ns where a: "a = (c, ns)" by (cases a)
  have ne: "fa2 (subgraph G ns) it \<noteq> []" using Cons.prems(3) a by simp
  have k1: "c \<notin> set (keys lp)" and k2: "c \<notin> set (keys cc)"
    using Cons.prems(1,2) a by (auto simp: keys_def)
  have d1: "distinct (keys (lp @ [(c, fa2 (subgraph G ns) it)]) @ keys cs)"
    and d2: "distinct (keys (cc @ [(c, ctr (fa2 (subgraph G ns) it))]) @ keys cs)"
    using Cons.prems(1,2) a by (auto simp: keys_def)
  have r: "\<forall>(c, ns) \<in> set cs. fa2 (subgraph G ns) it \<noteq> []"
    using Cons.prems(3) by simp
  show ?case
    using Cons.IH[OF d1 d2 r]
    by (simp add: a Let_def centroid_of_nonempty[OF ne] dict_set_new[OF k1] dict_set_new[OF k2])
qed

lemma map_of_place_community:
  "map_of (place_community ce off p pos) =
     map_of (rev (map (\<lambda>(n, q). (n, place ce off q)) p) @ pos)"
proof -
  have "place_community ce off p pos =
      fold (\<lambda>x. dict_set (fst x) (place ce off (snd x))) p pos"
    by (simp add: place_community_def case_prod_unfold)
  then show ?thesis
    by (simp add: map_of_fold_dict_set case_prod_unfold rev_map)
qed

lemma compose_eq:
  assumes "\<forall>(c, p) \<in> set lp. map_of cc c = Some (C c) \<and> map_of os c = Some (Off c)"
  shows "\<exists>pos'. compose cc os lp pos = Inr pos' \<and>
           map_of pos' = map_of (rev (placed C Off lp) @ pos)"
  using assms
proof (induction lp arbitrary: pos)
  case Nil
  show ?case by (simp add: placed_def)
next
  case (Cons a lp)
  obtain c p where a: "a = (c, p)" by (cases a)
  from Cons.prems a have l: "map_of cc c = Some (C c)" "map_of os c = Some (Off c)"
    and r: "\<forall>(c, p) \<in> set lp. map_of cc c = Some (C c) \<and> map_of os c = Some (Off c)"
    by simp_all
  from Cons.IH[OF r, of "place_community (C c) (Off c) p pos"]
  obtain pos' where c: "compose cc os lp (place_community (C c) (Off c) p pos) = Inr pos'"
    and m: "map_of pos' = map_of (rev (placed C Off lp) @ place_community (C c) (Off c) p pos)"
    by blast
  have "map_of pos' = map_of (rev (placed C Off (a # lp)) @ pos)"
    unfolding m
    by (simp add: map_of_append map_of_place_community placed_def a map_add_assoc)
  with c show ?case by (simp add: a l)
qed

lemma distinct_concat_same_sets:
  assumes "distinct (concat (map g xs))"
    and "\<forall>x \<in> set xs. distinct (f x) \<and> set (f x) = set (g x)"
  shows "distinct (concat (map f xs))"
  using assms by (induction xs) auto

lemma keys_placed:
  "keys (placed C Off lp) = concat (map (\<lambda>(c, p). keys p) lp)"
  by (induction lp) (auto simp: placed_def keys_def case_prod_beta comp_def)

lemma global_offsets_nth:
  assumes "distinct (keys cs)" "k < length cs"
  shows "map_of (global_offsets cs R) (sort (keys cs) ! k) =
     Some (R * cos (anchor_angle k (length cs)), R * sin (anchor_angle k (length cs)))"
proof -
  let ?ks = "sort (keys cs)"
  let ?vf = "\<lambda>x::nat \<times> int. (R * cos (anchor_angle (fst x) (length cs)),
                 R * sin (anchor_angle (fst x) (length cs)))"
  have len: "length ?ks = length cs" by (simp add: keys_def)
  have g: "global_offsets cs R = fold (\<lambda>x. dict_set (snd x) (?vf x)) (enumerate 0 ?ks) []"
    by (simp add: global_offsets_def Let_def case_prod_unfold)
  have d: "distinct (map snd (enumerate 0 ?ks))"
    using assms(1) by simp
  have m: "(k, ?ks ! k) \<in> set (enumerate 0 ?ks)"
    using assms(2) len by (simp add: in_set_enumerate_eq)
  show ?thesis
    using map_of_fold_dict_set_distinct[OF d m, of ?vf] by (simp add: g)
qed

lemma global_offsets_key:
  assumes "distinct (keys cs)" "c \<in> set (keys cs)"
  shows "\<exists>a. map_of (global_offsets cs R) c = Some a"
proof -
  from assms(2) have "c \<in> set (sort (keys cs))" by simp
  then obtain k where "k < length (sort (keys cs))" "sort (keys cs) ! k = c"
    unfolding in_set_conv_nth by blast
  then show ?thesis
    using global_offsets_nth[OF assms(1), of k R] by (auto simp: keys_def)
qed

lemma compute_global_layout_lookup:
  assumes d: "distinct (keys cs)"
    and dn: "distinct (concat (map snd cs))"
    and h: "\<forall>(c, ns) \<in> set cs. ns \<noteq> [] \<and> distinct (keys (fa2 (subgraph G ns) it))
              \<and> set (keys (fa2 (subgraph G ns) it)) = set ns"
  shows "\<exists>pos. compute_global_layout fa2 G cs it R = Inr pos \<and>
     (\<forall>(c, ns) \<in> set cs. \<forall>(n, q) \<in> set (fa2 (subgraph G ns) it).
        \<exists>a. map_of (global_offsets cs R) c = Some a \<and>
            map_of pos n = Some (place (ctr (fa2 (subgraph G ns) it)) a q))"
proof -
  let ?pl = "\<lambda>ns. fa2 (subgraph G ns) it"
  let ?lp = "map (\<lambda>(c, ns). (c, ?pl ns)) cs"
  let ?cc = "map (\<lambda>(c, ns). (c, ctr (?pl ns))) cs"
  let ?os = "global_offsets cs R"
  let ?C = "\<lambda>c. the (map_of ?cc c)"
  let ?O = "\<lambda>c. the (map_of ?os c)"
  have ne: "\<forall>(c, ns) \<in> set cs. ?pl ns \<noteq> []"
  proof (clarify)
    fix c ns assume "(c, ns) \<in> set cs" "?pl ns = []"
    with h have "ns \<noteq> []" "set (keys (?pl ns)) = set ns" by auto
    with \<open>?pl ns = []\<close> show False by (simp add: keys_def)
  qed
  have ll: "local_layouts fa2 G it cs ([], []) = Inr (?lp, ?cc)"
    using local_layouts_eq[of "[]" cs "[]" fa2 G it] d ne by (simp add: keys_def)
  have kcc: "map fst ?cc = keys cs" by (simp add: keys_def case_prod_unfold comp_def)
  have cc: "map_of ?cc c = Some (ctr (?pl ns))" if "(c, ns) \<in> set cs" for c ns
  proof (rule map_of_is_SomeI)
    show "distinct (map fst ?cc)" using d unfolding kcc .
    show "(c, ctr (?pl ns)) \<in> set ?cc" using that by force
  qed
  have os: "\<exists>a. map_of ?os c = Some a" if "(c, ns) \<in> set cs" for c ns
    using global_offsets_key[OF d, of c R] that by (force simp: keys_def)
  have pre: "\<forall>(c, p) \<in> set ?lp. map_of ?cc c = Some (?C c) \<and> map_of ?os c = Some (?O c)"
    using cc os by fastforce
  from compose_eq[OF pre, of "[]"]
  obtain pos where c: "compose ?cc ?os ?lp [] = Inr pos"
    and m: "map_of pos = map_of (rev (placed ?C ?O ?lp))"
    by auto
  have kp: "keys (placed ?C ?O ?lp) = concat (map (\<lambda>x. keys (?pl (snd x))) cs)"
    by (simp add: keys_placed comp_def case_prod_unfold)
  have dp: "distinct (keys (placed ?C ?O ?lp))"
    unfolding kp
    by (rule distinct_concat_same_sets[OF dn]) (use h in auto)
  have look: "\<exists>a. map_of ?os c = Some a \<and> map_of pos n = Some (place (ctr (?pl ns)) a q)"
    if in_cs: "(c, ns) \<in> set cs" and nq: "(n, q) \<in> set (?pl ns)" for c ns n q
  proof -
    from os[OF in_cs] obtain a where a: "map_of ?os c = Some a" by blast
    have "(n, place (?C c) (?O c) q) \<in> set (placed ?C ?O ?lp)"
      unfolding placed_def using in_cs nq by force
    then have "(n, place (ctr (?pl ns)) a q) \<in> set (rev (placed ?C ?O ?lp))"
      by (simp add: cc[OF in_cs] a)
    moreover have "distinct (map fst (rev (placed ?C ?O ?lp)))"
      using dp by (simp add: keys_def rev_map[symmetric] del: rev_map)
    ultimately have "map_of pos n = Some (place (ctr (?pl ns)) a q)"
      unfolding m by (rule map_of_is_SomeI[rotated])
    with a show ?thesis by blast
  qed
  have "compute_global_layout fa2 G cs it R = Inr pos"
    by (simp add: compute_global_layout_def ll c)
  with look show ?thesis by blast
qed

lemma sum_list_shift:
  "sum_list (map (\<lambda>x. f x - m + a) xs) =
     sum_list (map f xs) - real (length xs) * m + real (length xs) * (a::real)"
  by (induction xs) (simp_all add: algebra_simps)

lemma mean_shift:
  "xs \<noteq> [] \<Longrightarrow> mean (map (\<lambda>x. f x - m + a) xs) = mean (map f xs) - m + a"
  by (simp add: mean_def sum_list_shift diff_divide_distrib add_divide_distrib)

lemma values_by_keys:
  "distinct (map fst d) \<Longrightarrow> map (\<lambda>k. the (map_of d k)) (map fst d) = map snd d"
  by (induction d) (auto simp: rev_image_eqI)

lemma key_in_dict: "k \<in> set (keys d) \<Longrightarrow> \<exists>v. (k, v) \<in> set d"
  by (auto simp: keys_def)

lemma distinct_concat_member: "distinct (concat xss) \<Longrightarrow> xs \<in> set xss \<Longrightarrow> distinct xs"
  by (induction xss) auto

lemma sum_over_members:
  fixes g :: "'v \<Rightarrow> real"
  assumes "distinct ns" "distinct (keys d)" "set (keys d) = set ns"
  shows "sum_list (map (\<lambda>n. g (the (map_of d n))) ns) = sum_list (map g (dict_values d))"
    and "length ns = length d"
proof -
  let ?h = "\<lambda>n. g (the (map_of d n))"
  have "sum_list (map ?h ns) = sum ?h (set ns)"
    using assms(1) by (rule sum_list_distinct_conv_sum_set)
  also have "\<dots> = sum ?h (set (keys d))" by (simp add: assms(3))
  also have "\<dots> = sum_list (map ?h (keys d))"
    using assms(2) by (rule sum_list_distinct_conv_sum_set[symmetric])
  also have "map ?h (keys d) = map g (map (\<lambda>k. the (map_of d k)) (keys d))"
    by (simp add: comp_def)
  also have "map (\<lambda>k. the (map_of d k)) (keys d) = dict_values d"
    using assms(2) unfolding keys_def dict_values_def by (rule values_by_keys)
  finally show "sum_list (map ?h ns) = sum_list (map g (dict_values d))" .
  have "length ns = card (set ns)" using assms(1) by (simp add: distinct_card)
  also have "\<dots> = length (keys d)" using assms(2,3) by (metis distinct_card)
  finally show "length ns = length d" by (simp add: keys_def)
qed

lemma mean_over_members:
  fixes g :: "'v \<Rightarrow> real"
  assumes "distinct ns" "distinct (keys d)" "set (keys d) = set ns"
  shows "mean (map (\<lambda>n. g (the (map_of d n))) ns) = mean (map g (dict_values d))"
  using sum_over_members(1)[OF assms, of g] sum_over_members(2)[OF assms]
  by (simp add: mean_def dict_values_def)

text \<open>
  Claim C1. Let the communities be a dictionary of non-empty member lists in which every
  node occurs once, and let the local layout of each community give a coordinate to
  exactly its members. Then \<open>compute_global_layout\<close> returns a position map, and for every
  community the arithmetic mean of its members' final coordinates is the anchor assigned
  to the community: exactly over the real numbers, hence within \<open>1e-6\<close>.
\<close>

theorem composition_centering:
  assumes "distinct (keys communities)"
    and "distinct (concat (map snd communities))"
    and "\<forall>(c, ns) \<in> set communities. ns \<noteq> []
           \<and> distinct (keys (fa2 (subgraph G ns) iterations))
           \<and> set (keys (fa2 (subgraph G ns) iterations)) = set ns"
  shows "\<exists>pos. compute_global_layout fa2 G communities iterations R = Inr pos \<and>
     (\<forall>(c, ns) \<in> set communities. \<exists>anchor ps.
        map_of (global_offsets communities R) c = Some anchor \<and>
        map (map_of pos) ns = map Some ps \<and>
        mean (map fst ps) = fst anchor \<and> mean (map snd ps) = snd anchor \<and>
        \<bar>mean (map fst ps) - fst anchor\<bar> \<le> 1 / 10 ^ 6 \<and>
        \<bar>mean (map snd ps) - snd anchor\<bar> \<le> 1 / 10 ^ 6)"
proof -
  from compute_global_layout_lookup[of communities fa2 G iterations R, OF assms]
  obtain pos where r: "compute_global_layout fa2 G communities iterations R = Inr pos"
    and look: "\<forall>(c, ns) \<in> set communities. \<forall>(n, q) \<in> set (fa2 (subgraph G ns) iterations).
        \<exists>a. map_of (global_offsets communities R) c = Some a \<and>
            map_of pos n = Some (place (ctr (fa2 (subgraph G ns) iterations)) a q)"
    by blast
  have "\<exists>anchor ps.
        map_of (global_offsets communities R) c = Some anchor \<and>
        map (map_of pos) ns = map Some ps \<and>
        mean (map fst ps) = fst anchor \<and> mean (map snd ps) = snd anchor \<and>
        \<bar>mean (map fst ps) - fst anchor\<bar> \<le> 1 / 10 ^ 6 \<and>
        \<bar>mean (map snd ps) - snd anchor\<bar> \<le> 1 / 10 ^ 6"
    if in_cs: "(c, ns) \<in> set communities" for c ns
  proof -
    let ?pl = "fa2 (subgraph G ns) iterations"
    from assms(3) in_cs have ne: "ns \<noteq> []" and dk: "distinct (keys ?pl)"
      and sk: "set (keys ?pl) = set ns" by auto
    have dns: "distinct ns"
      using distinct_concat_member[OF assms(2), of ns] in_cs by force
    from global_offsets_key[OF assms(1), of c R] in_cs
    obtain a where a: "map_of (global_offsets communities R) c = Some a"
      by (force simp: keys_def)
    let ?ps = "map (\<lambda>n. place (ctr ?pl) a (the (map_of ?pl n))) ns"
    have "map_of pos n = Some (place (ctr ?pl) a (the (map_of ?pl n)))" if "n \<in> set ns" for n
    proof -
      from that sk key_in_dict[of n ?pl] obtain q where q: "(n, q) \<in> set ?pl" by blast
      with dk have "map_of ?pl n = Some q" by (simp add: keys_def)
      with look in_cs q a show ?thesis by fastforce
    qed
    then have m: "map (map_of pos) ns = map Some ?ps" by simp
    have "mean (map fst ?ps) = mean (map (\<lambda>n. fst (the (map_of ?pl n)) - fst (ctr ?pl) + fst a) ns)"
      by (simp add: place_def comp_def)
    also have "\<dots> = mean (map (\<lambda>n. fst (the (map_of ?pl n))) ns) - fst (ctr ?pl) + fst a"
      using ne by (rule mean_shift)
    also have "mean (map (\<lambda>n. fst (the (map_of ?pl n))) ns) = fst (ctr ?pl)"
      using mean_over_members[OF dns dk sk, of fst] by (simp add: ctr_def)
    finally have x: "mean (map fst ?ps) = fst a" by simp
    have "mean (map snd ?ps) = mean (map (\<lambda>n. snd (the (map_of ?pl n)) - snd (ctr ?pl) + snd a) ns)"
      by (simp add: place_def comp_def)
    also have "\<dots> = mean (map (\<lambda>n. snd (the (map_of ?pl n))) ns) - snd (ctr ?pl) + snd a"
      using ne by (rule mean_shift)
    also have "mean (map (\<lambda>n. snd (the (map_of ?pl n))) ns) = snd (ctr ?pl)"
      using mean_over_members[OF dns dk sk, of snd] by (simp add: ctr_def)
    finally have y: "mean (map snd ?ps) = snd a" by simp
    from a m x y show ?thesis by (intro exI[of _ a] exI[of _ ?ps]) simp
  qed
  with r show ?thesis by blast
qed

text \<open>
  Claim C10. Under the same conditions the composition is a translation of each
  community: for two members \<open>u\<close> and \<open>v\<close> of a community, the difference of their final
  coordinates is the difference of their local coordinates.
\<close>

theorem composition_keeps_differences:
  assumes "distinct (keys communities)"
    and "distinct (concat (map snd communities))"
    and "\<forall>(c, ns) \<in> set communities. ns \<noteq> []
           \<and> distinct (keys (fa2 (subgraph G ns) iterations))
           \<and> set (keys (fa2 (subgraph G ns) iterations)) = set ns"
  shows "\<exists>pos. compute_global_layout fa2 G communities iterations R = Inr pos \<and>
     (\<forall>(c, ns) \<in> set communities. \<forall>u \<in> set ns. \<forall>v \<in> set ns. \<exists>gu gv lu lv.
        map_of pos u = Some gu \<and> map_of pos v = Some gv \<and>
        map_of (fa2 (subgraph G ns) iterations) u = Some lu \<and>
        map_of (fa2 (subgraph G ns) iterations) v = Some lv \<and>
        fst gu - fst gv = fst lu - fst lv \<and> snd gu - snd gv = snd lu - snd lv)"
proof -
  from compute_global_layout_lookup[of communities fa2 G iterations R, OF assms]
  obtain pos where r: "compute_global_layout fa2 G communities iterations R = Inr pos"
    and look: "\<forall>(c, ns) \<in> set communities. \<forall>(n, q) \<in> set (fa2 (subgraph G ns) iterations).
        \<exists>a. map_of (global_offsets communities R) c = Some a \<and>
            map_of pos n = Some (place (ctr (fa2 (subgraph G ns) iterations)) a q)"
    by blast
  have "\<exists>gu gv lu lv.
        map_of pos u = Some gu \<and> map_of pos v = Some gv \<and>
        map_of (fa2 (subgraph G ns) iterations) u = Some lu \<and>
        map_of (fa2 (subgraph G ns) iterations) v = Some lv \<and>
        fst gu - fst gv = fst lu - fst lv \<and> snd gu - snd gv = snd lu - snd lv"
    if in_cs: "(c, ns) \<in> set communities" and u: "u \<in> set ns" and v: "v \<in> set ns" for c ns u v
  proof -
    let ?pl = "fa2 (subgraph G ns) iterations"
    from assms(3) in_cs have dk: "distinct (keys ?pl)"
      and sk: "set (keys ?pl) = set ns" by auto
    from u sk key_in_dict[of u ?pl] obtain lu where lu: "(u, lu) \<in> set ?pl" by blast
    from v sk key_in_dict[of v ?pl] obtain lv where lv: "(v, lv) \<in> set ?pl" by blast
    from dk lu lv have ml: "map_of ?pl u = Some lu" "map_of ?pl v = Some lv"
      by (simp_all add: keys_def)
    from look in_cs lu obtain a where a: "map_of (global_offsets communities R) c = Some a"
      and gu: "map_of pos u = Some (place (ctr ?pl) a lu)" by fastforce
    from look in_cs lv a have gv: "map_of pos v = Some (place (ctr ?pl) a lv)" by fastforce
    show ?thesis
      using ml gu gv by (simp add: place_def)
  qed
  with r show ?thesis by blast
qed

text \<open>
  Claim C2. The community ids are sorted ascending and, of \<open>N\<close> communities, the \<open>k\<close>-th
  (from \<open>0\<close>) gets the anchor \<open>(R cos (2 pi k / N), R sin (2 pi k / N))\<close>; the angles of
  consecutive anchors differ by \<open>2 pi / N\<close>.
\<close>

theorem anchors_evenly_on_circle:
  assumes "distinct (keys communities)" and "k < length communities"
  shows "sorted (sort (keys communities)) \<and>
     map_of (global_offsets communities R) (sort (keys communities) ! k) =
       Some (R * cos (2 * pi * real k / real (length communities)),
             R * sin (2 * pi * real k / real (length communities))) \<and>
     anchor_angle (Suc k) (length communities) - anchor_angle k (length communities) =
       2 * pi / real (length communities)"
proof -
  have "anchor_angle (Suc k) (length communities) - anchor_angle k (length communities) =
       2 * pi / real (length communities)"
    by (simp add: anchor_angle_def add_divide_distrib distrib_left)
  then show ?thesis
    using global_offsets_nth[OF assms, of R] by (simp add: anchor_angle_def)
qed

section \<open>Community detection: lemmas\<close>

lemma mset_members_dict_set:
  "map_of acc c = Some ns \<Longrightarrow>
     mset (concat (map snd (dict_set c (ns @ [n]) acc))) = mset (concat (map snd acc)) + {#n#}"
  by (induction acc) (auto split: if_splits)

lemma mset_members_setdefault_append:
  "mset (concat (map snd (setdefault_append c n acc))) = mset (concat (map snd acc)) + {#n#}"
proof (cases "map_of acc c")
  case None
  then have "c \<notin> set (keys acc)" by (simp add: map_of_None_keys)
  then show ?thesis by (simp add: setdefault_append_def None dict_set_new)
next
  case (Some ns)
  then show ?thesis by (simp add: setdefault_append_def mset_members_dict_set)
qed

lemma distinct_keys_setdefault_append:
  "distinct (keys acc) \<Longrightarrow> distinct (keys (setdefault_append c n acc))"
  by (simp add: setdefault_append_def distinct_keys_dict_set split: option.splits)

lemma set_dict_set_subset: "set (dict_set k v d) \<subseteq> insert (k, v) (set d)"
  by (induction d) (auto split: if_splits)

lemma nonempty_setdefault_append:
  "\<forall>(c, ns) \<in> set acc. ns \<noteq> [] \<Longrightarrow> \<forall>(c, ns) \<in> set (setdefault_append c' n acc). ns \<noteq> []"
  using set_dict_set_subset[of c' _ acc]
  by (fastforce simp: setdefault_append_def split: option.splits)

lemma fold_setdefault_append:
  "distinct (keys acc) \<Longrightarrow> \<forall>(c, ns) \<in> set acc. ns \<noteq> [] \<Longrightarrow>
     mset (concat (map snd
       (fold (\<lambda>(node, community_id) communities.
                setdefault_append community_id node communities) part acc))) =
       mset (concat (map snd acc)) + mset (keys part)
     \<and> distinct (keys (fold (\<lambda>(node, community_id) communities.
                setdefault_append community_id node communities) part acc))
     \<and> (\<forall>(c, ns) \<in> set (fold (\<lambda>(node, community_id) communities.
                setdefault_append community_id node communities) part acc). ns \<noteq> [])"
proof (induction part arbitrary: acc)
  case Nil
  then show ?case by (simp add: keys_def)
next
  case (Cons a part)
  obtain n c where a: "a = (n, c)" by (cases a)
  have d: "distinct (keys (setdefault_append c n acc))"
    using Cons.prems(1) by (rule distinct_keys_setdefault_append)
  have e: "\<forall>(c, ns) \<in> set (setdefault_append c n acc). ns \<noteq> []"
    using Cons.prems(2) by (rule nonempty_setdefault_append)
  show ?case
    using Cons.IH[OF d e]
    by (simp add: a mset_members_setdefault_append keys_def)
qed

lemma group_communities_members:
  "mset (concat (map snd (group_communities part))) = mset (keys part)"
  "distinct (keys (group_communities part))"
  "\<forall>(c, ns) \<in> set (group_communities part). ns \<noteq> []"
  using fold_setdefault_append[of "[]" part]
  by (simp_all add: group_communities_def keys_def)

lemma keys_fold_dict_set:
  "set (keys (fold (\<lambda>x. dict_set (kf x) (vf x)) xs d)) = set (keys d) \<union> kf ` set xs"
  by (induction xs arbitrary: d) (auto simp: set_keys_dict_set)

lemma distinct_keys_fold_dict_set:
  "distinct (keys d) \<Longrightarrow> distinct (keys (fold (\<lambda>x. dict_set (kf x) (vf x)) xs d))"
  by (induction xs arbitrary: d) (simp_all add: distinct_keys_dict_set)

lemma best_partition_no_edges:
  assumes "number_of_edges G = 0"
  shows "\<exists>p. best_partition optimise G = Inr p \<and> distinct (keys p)
            \<and> set (keys p) = set (graph_nodes G)"
proof -
  let ?p = "fold (\<lambda>x. dict_set (snd x) (int (fst x))) (enumerate 0 (graph_nodes G)) []"
  have "best_partition optimise G = Inr ?p"
    by (simp add: best_partition_def assms case_prod_unfold)
  moreover have "distinct (keys ?p)"
    by (rule distinct_keys_fold_dict_set) (simp add: keys_def)
  moreover have "set (keys ?p) = set (graph_nodes G)"
    by (simp add: keys_fold_dict_set keys_def[of "[]"] set_map[symmetric] del: set_map)
  ultimately show ?thesis by blast
qed

lemma unique_community:
  "distinct (concat (map f xs)) \<Longrightarrow> x \<in> set xs \<Longrightarrow> y \<in> set xs \<Longrightarrow>
     n \<in> set (f x) \<Longrightarrow> n \<in> set (f y) \<Longrightarrow> x = y"
  by (induction xs) auto

text \<open>
  Claim C8. When \<open>compute_communities\<close> returns, and the partition that the library's
  optimisation returns has the nodes of the graph as its keys, the communities are a
  partition of the nodes of the graph: no node occurs twice in the member lists, the
  member lists together hold exactly the nodes of the graph, and every node of the graph
  is in the member list of exactly one community.
\<close>

theorem communities_partition_nodes:
  assumes "compute_communities optimise score G = Inr (part, communities, q)"
    and "\<forall>p. optimise G = Inr p \<longrightarrow> distinct (keys p) \<and> set (keys p) = set (graph_nodes G)"
  shows "distinct (keys communities)
     \<and> distinct (concat (map snd communities))
     \<and> set (concat (map snd communities)) = set (graph_nodes G)
     \<and> (\<forall>n \<in> set (graph_nodes G). \<exists>!cn. cn \<in> set communities \<and> n \<in> set (snd cn))"
proof -
  from assms(1) have bp: "best_partition optimise G = Inr part"
    and gc: "communities = group_communities part"
    by (auto simp: compute_communities_def split: sum.splits)
  have p: "distinct (keys part) \<and> set (keys part) = set (graph_nodes G)"
  proof (cases "number_of_edges G = 0")
    case True
    from best_partition_no_edges[OF True, of optimise] bp show ?thesis by auto
  next
    case False
    with bp have "optimise G = Inr part" by (simp add: best_partition_def)
    with assms(2) show ?thesis by blast
  qed
  have m: "mset (concat (map snd communities)) = mset (keys part)"
    unfolding gc by (rule group_communities_members)
  have d: "distinct (concat (map snd communities))"
    using p mset_eq_imp_distinct_iff[OF m] by simp
  have s: "set (concat (map snd communities)) = set (graph_nodes G)"
    using p mset_eq_setD[OF m] by simp
  have u: "\<exists>!cn. cn \<in> set communities \<and> n \<in> set (snd cn)" if "n \<in> set (graph_nodes G)" for n
  proof -
    from that s have "n \<in> set (concat (map snd communities))" by simp
    then obtain cn where "cn \<in> set communities" "n \<in> set (snd cn)"
      unfolding set_concat by force
    then show ?thesis using unique_community[OF d] by blast
  qed
  from d s u show ?thesis
    unfolding gc using group_communities_members(2)[of part] by blast
qed

text \<open>
  Claim C5, as the code has it. On the empty graph \<open>best_partition\<close> returns the empty
  partition, and the call of \<open>modularity\<close> that follows raises ValueError: the total
  weight is zero. \<open>compute_communities\<close> returns no partition and no modularity.
\<close>

theorem empty_graph_modularity_undefined:
  "best_partition optimise empty_graph = Inr []
   \<and> compute_communities optimise score empty_graph = Inl ValueError"
  by (simp add: compute_communities_def best_partition_def modularity_def number_of_edges_def
      graph_size_def graph_nodes_def empty_graph_def keys_def)

text \<open>
  Claim C5 as stated fails: on the empty graph \<open>compute_communities\<close> raises ValueError
  and reports no modularity.
\<close>

theorem empty_graph_counterexample:
  "compute_communities example_optimise example_score empty_graph = Inl ValueError"
  by (simp add: compute_communities_def best_partition_def modularity_def number_of_edges_def
      graph_size_def graph_nodes_def empty_graph_def keys_def)

lemma build_graph_single:
  "build_graph [row] [] = \<lparr>g_node = [(Id row, Some row)], g_adj = [(Id row, [])]\<rparr>"
  by (simp add: build_graph_def set_node_row_def add_node_def empty_graph_def keys_def Let_def)

lemma single_key_dict: "keys d = [k] \<Longrightarrow> \<exists>v. d = [(k, v)]"
  by (cases d) (auto simp: keys_def)

text \<open>
  Claim C7, as the code has it. On the graph of one node and no edge \<open>best_partition\<close> maps
  the node to community \<open>0\<close>, whose only member it is; the call of \<open>modularity\<close> raises
  ValueError, so \<open>compute_communities\<close> reports no modularity; and
  \<open>compute_global_layout\<close>, given that community and a local layout of exactly the node,
  places the node at the anchor \<open>(R, 0)\<close> of the community.
\<close>

theorem single_node_graph:
  assumes "keys (fa2 (subgraph (build_graph [row] []) [Id row]) iterations) = [Id row]"
  shows "best_partition optimise (build_graph [row] []) = Inr [(Id row, 0)]
     \<and> group_communities [(Id row, 0)] = [(0, [Id row])]
     \<and> compute_communities optimise score (build_graph [row] []) = Inl ValueError
     \<and> map_of (global_offsets [(0, [Id row])] R) 0 = Some (R, 0)
     \<and> compute_global_layout fa2 (build_graph [row] []) [(0, [Id row])] iterations R
          = Inr [(Id row, (R, 0))]"
proof -
  have n: "number_of_edges (build_graph [row] []) = 0"
    by (simp add: build_graph_single number_of_edges_def graph_nodes_def keys_def degree_def
        nbrs_def)
  have s: "graph_size (build_graph [row] []) = 0"
    by (simp add: build_graph_single graph_size_def graph_nodes_def keys_def
        weighted_degree_def nbrs_def dict_values_def)
  have bp: "best_partition optimise (build_graph [row] []) = Inr [(Id row, 0)]"
    by (simp add: best_partition_def n) (simp add: build_graph_single graph_nodes_def keys_def)
  have gc: "group_communities [(Id row, 0)] = [(0, [Id row])]"
    by (simp add: group_communities_def setdefault_append_def)
  have cc: "compute_communities optimise score (build_graph [row] []) = Inl ValueError"
    by (simp add: compute_communities_def bp modularity_def s)
  have off: "global_offsets [(0, [Id row])] R = [(0, (R, 0))]"
    by (simp add: global_offsets_def keys_def anchor_angle_def)
  from single_key_dict[OF assms] obtain p
    where p: "fa2 (subgraph (build_graph [row] []) [Id row]) iterations = [(Id row, p)]"
    by blast
  have "compute_global_layout fa2 (build_graph [row] []) [(0, [Id row])] iterations R
          = Inr [(Id row, (R, 0))]"
    by (simp add: compute_global_layout_def p centroid_of_def dict_values_def off
        place_community_def place_def)
  with bp gc cc off show ?thesis by simp
qed

text \<open>
  Claim C7 as stated fails: on a graph of one node and no edge \<open>compute_communities\<close>
  raises ValueError and reports no modularity.
\<close>

theorem single_node_graph_counterexample:
  "compute_communities example_optimise example_score
     (build_graph [example_row 1 (3/10) (1/5)] []) = Inl ValueError"
  by (simp add: compute_communities_def best_partition_def modularity_def build_graph_single
      number_of_edges_def graph_size_def graph_nodes_def keys_def degree_def weighted_degree_def
      nbrs_def dict_values_def)

section \<open>The theorems on the example inputs\<close>

lemma example_graph_eq:
  "example_graph =
     \<lparr>g_node = [(1, Some (example_row 1 (3/10) (1/5))), (2, Some (example_row 2 (3/10) (1/5))),
                (3, Some (example_row 3 (1/2) (2/5))), (4, Some (example_row 4 (1/2) (2/5)))],
      g_adj = [(1, [(2, 1)]), (2, [(1, 1)]), (3, [(4, 1)]), (4, [(3, 1)])]\<rparr>"
  by (simp add: example_graph_def build_graph_def example_rows_def example_edges_def
      edge_row_def float64_of_int_exact add_edge_def add_node_def set_node_row_def
      empty_graph_def keys_def nbrs_def Let_def example_row_def)

lemma example_layouts:
  "example_fa2 (subgraph example_graph [1, 2]) it = [(1, (1, 0)), (2, (2, 0))]"
  "example_fa2 (subgraph example_graph [3, 4]) it = [(3, (3, 0)), (4, (4, 0))]"
  by (simp_all add: example_fa2_def subgraph_def example_graph_eq)

lemma example_layout_premise:
  "\<forall>(c, ns) \<in> set example_communities. ns \<noteq> []
           \<and> distinct (keys (example_fa2 (subgraph example_graph ns) 5000))
           \<and> set (keys (example_fa2 (subgraph example_graph ns) 5000)) = set ns"
  by (simp add: example_communities_def example_layouts keys_def)

lemma Id_example_row: "Id (example_row i t a) = i"
  by (simp add: example_row_def)

theorem composition_centering_witness:
  "distinct (keys example_communities) \<and> distinct (concat (map snd example_communities))
   \<and> (\<exists>pos ps. compute_global_layout example_fa2 example_graph example_communities 5000 15
                   = Inr pos
        \<and> map (map_of pos) [3, 4] = map Some ps
        \<and> mean (map fst ps) = - 15 \<and> mean (map snd ps) = 0)"
proof -
  have d1: "distinct (keys example_communities)"
    by (simp add: example_communities_def keys_def)
  have d2: "distinct (concat (map snd example_communities))"
    by (simp add: example_communities_def)
  have off: "map_of (global_offsets example_communities 15) 1 = Some (- 15, 0)"
    by (simp add: global_offsets_def example_communities_def keys_def anchor_angle_def)
  have m: "(1, [3, 4]) \<in> set example_communities"
    by (simp add: example_communities_def)
  from composition_centering[of example_communities example_fa2 example_graph 5000 15,
      OF d1 d2 example_layout_premise]
  obtain pos where r: "compute_global_layout example_fa2 example_graph example_communities 5000 15
      = Inr pos"
    and a: "\<forall>(c, ns) \<in> set example_communities. \<exists>anchor ps.
        map_of (global_offsets example_communities 15) c = Some anchor \<and>
        map (map_of pos) ns = map Some ps \<and>
        mean (map fst ps) = fst anchor \<and> mean (map snd ps) = snd anchor \<and>
        \<bar>mean (map fst ps) - fst anchor\<bar> \<le> 1 / 10 ^ 6 \<and>
        \<bar>mean (map snd ps) - snd anchor\<bar> \<le> 1 / 10 ^ 6"
    by blast
  from bspec[OF a m] obtain anchor ps
    where "map_of (global_offsets example_communities 15) 1 = Some anchor"
      and p: "map (map_of pos) [3, 4] = map Some ps"
      and "mean (map fst ps) = fst anchor" "mean (map snd ps) = snd anchor"
    by blast
  with off have "mean (map fst ps) = - 15" "mean (map snd ps) = 0"
    by simp_all
  with d1 d2 r p show ?thesis by blast
qed

theorem composition_keeps_differences_witness:
  "distinct (keys example_communities) \<and> distinct (concat (map snd example_communities))
   \<and> (\<exists>pos gu gv. compute_global_layout example_fa2 example_graph example_communities 5000 15
                   = Inr pos
        \<and> map_of pos 1 = Some gu \<and> map_of pos 2 = Some gv
        \<and> fst gu - fst gv = - 1 \<and> snd gu - snd gv = 0)"
proof -
  have d1: "distinct (keys example_communities)"
    by (simp add: example_communities_def keys_def)
  have d2: "distinct (concat (map snd example_communities))"
    by (simp add: example_communities_def)
  have m: "(0, [1, 2]) \<in> set example_communities"
    by (simp add: example_communities_def)
  from composition_keeps_differences[of example_communities example_fa2 example_graph 5000 15,
      OF d1 d2 example_layout_premise]
  obtain pos where r: "compute_global_layout example_fa2 example_graph example_communities 5000 15
      = Inr pos"
    and a: "\<forall>(c, ns) \<in> set example_communities. \<forall>u \<in> set ns. \<forall>v \<in> set ns. \<exists>gu gv lu lv.
        map_of pos u = Some gu \<and> map_of pos v = Some gv \<and>
        map_of (example_fa2 (subgraph example_graph ns) 5000) u = Some lu \<and>
        map_of (example_fa2 (subgraph example_graph ns) 5000) v = Some lv \<and>
        fst gu - fst gv = fst lu - fst lv \<and> snd gu - snd gv = snd lu - snd lv"
    by blast
  from bspec[OF a m] have "\<exists>gu gv lu lv.
        map_of pos 1 = Some gu \<and> map_of pos 2 = Some gv \<and>
        map_of (example_fa2 (subgraph example_graph [1, 2]) 5000) 1 = Some lu \<and>
        map_of (example_fa2 (subgraph example_graph [1, 2]) 5000) 2 = Some lv \<and>
        fst gu - fst gv = fst lu - fst lv \<and> snd gu - snd gv = snd lu - snd lv"
    by simp
  then obtain gu gv where "map_of pos 1 = Some gu" "map_of pos 2 = Some gv"
    "fst gu - fst gv = - 1" "snd gu - snd gv = 0"
    by (auto simp: example_layouts)
  with d1 d2 r show ?thesis by blast
qed

theorem anchors_evenly_on_circle_witness:
  "distinct (keys [(1::int, [3, 4::int]), (0, [1, 2])])
   \<and> (1::nat) < length [(1::int, [3, 4::int]), (0, [1, 2])]
   \<and> map_of (global_offsets [(1, [3, 4]), (0, [1, 2])] 15) 1 = Some (- 15, 0)"
proof -
  have d: "distinct (keys [(1::int, [3, 4::int]), (0, [1, 2])])"
    by (simp add: keys_def)
  have k: "(1::nat) < length [(1::int, [3, 4::int]), (0, [1, 2])]"
    by simp
  have s: "sort (keys [(1::int, [3, 4::int]), (0, [1, 2])]) ! 1 = 1"
    by (simp add: keys_def)
  from anchors_evenly_on_circle[OF d k, of 15, unfolded s]
  have "map_of (global_offsets [(1, [3, 4]), (0, [1, 2])] 15) 1 = Some (- 15, 0)"
    by simp
  with d k show ?thesis by blast
qed

theorem communities_partition_nodes_witness:
  "compute_communities example_optimise example_score example_graph
     = Inr ([(1, 0), (2, 0), (3, 1), (4, 1)], [(0, [1, 2]), (1, [3, 4])], 1 / 2)
   \<and> distinct (concat (map snd [(0::int, [1, 2]), (1, [3, 4::int])]))
   \<and> set (concat (map snd [(0::int, [1, 2]), (1, [3, 4::int])])) = set (graph_nodes example_graph)"
proof -
  have n: "number_of_edges example_graph = 2"
    by (simp add: example_graph_eq number_of_edges_def graph_nodes_def keys_def degree_def
        nbrs_def)
  have s: "graph_size example_graph = 2"
    by (simp add: example_graph_eq graph_size_def graph_nodes_def keys_def
        weighted_degree_def nbrs_def dict_values_def)
  have g: "graph_nodes example_graph = [1, 2, 3, 4]"
    by (simp add: example_graph_eq graph_nodes_def keys_def)
  have r: "compute_communities example_optimise example_score example_graph
     = Inr ([(1, 0), (2, 0), (3, 1), (4, 1)], [(0, [1, 2]), (1, [3, 4])], 1 / 2)"
    by (simp add: compute_communities_def best_partition_def modularity_def n s g
        example_optimise_def example_score_def group_communities_def setdefault_append_def)
  have c: "\<forall>p. example_optimise example_graph = Inr p \<longrightarrow>
      distinct (keys p) \<and> set (keys p) = set (graph_nodes example_graph)"
    by (auto simp: example_optimise_def g keys_def)
  from communities_partition_nodes[OF r c] r show ?thesis by blast
qed

theorem single_node_graph_witness:
  "keys (example_fa2 (subgraph (build_graph [example_row 1 (3/10) (1/5)] []) [1]) 5000) = [1]
   \<and> compute_communities example_optimise example_score
        (build_graph [example_row 1 (3/10) (1/5)] []) = Inl ValueError
   \<and> compute_global_layout example_fa2 (build_graph [example_row 1 (3/10) (1/5)] []) [(0, [1])]
        5000 15 = Inr [(1, (15, 0))]"
proof -
  have k: "keys (example_fa2 (subgraph (build_graph [example_row 1 (3/10) (1/5)] [])
      [Id (example_row 1 (3/10) (1/5))]) 5000) = [Id (example_row 1 (3/10) (1/5))]"
    by (simp add: build_graph_single example_fa2_def subgraph_def keys_def Id_example_row)
  from single_node_graph[of example_fa2 "example_row 1 (3/10) (1/5)" 5000
      example_optimise example_score 15, OF k] k
  show ?thesis by (simp add: Id_example_row)
qed

end
